theory Spec2Isabelle
  imports Complex_Main "HOL-Library.Word"
begin

section \<open>The balance monitor (chain-mon/src/balance-mon/service.ts)\<close>

text \<open>
  The service parses a JSON list of accounts once (\<open>init\<close>) and then, on every tick
  (\<open>main\<close>), reads each account's balance and, for accounts flagged \<open>safe\<close>, the nonce
  of the safe contract, writing the results to two gauges and counting failed reads in a
  counter. The RPC provider, the metrics and the logger are objects the service is handed:
  the provider is a parameter of the model (two operations over a hidden state of any
  type), the metrics are the maps the gauges and the counter hold, and every operation on
  provider, metrics or logger is also reported, in order, in the list of events a tick
  returns. The metrics and the logger are taken never to throw, and neither they nor the
  provider touch the service's state; awaiting a rejected promise is a throw.
\<close>

subsection \<open>JavaScript values\<close>

text \<open>
  \<open>JSON.parse\<close> gives the service values it never checks, so the accounts are modelled as
  JavaScript values, not as typed records. A number is an IEEE-754 double: a finite one is
  carried by its exact value, \<open>-0\<close> is kept apart. A string is a list of characters
  (code units below 256). An object is the list of its own properties, keys distinct.
\<close>

datatype number = Finite rat | NegZero | PosInfinity | NegInfinity | NaN

datatype jsval =
    JUndefined
  | JNull
  | JBoolean bool
  | JNumber number
  | JString string
  | JArray "jsval list"
  | JObject "(string \<times> jsval) list"

datatype error = SyntaxError | TypeError | InvalidBigNumberString | RpcError string

text \<open>ECMAScript ToBoolean, the test an \<open>if\<close> applies to its condition.\<close>

fun ToBoolean :: "jsval \<Rightarrow> bool" where
  "ToBoolean JUndefined = False"
| "ToBoolean JNull = False"
| "ToBoolean (JBoolean b) = b"
| "ToBoolean (JNumber (Finite r)) = (r \<noteq> 0)"
| "ToBoolean (JNumber NegZero) = False"
| "ToBoolean (JNumber NaN) = False"
| "ToBoolean (JNumber PosInfinity) = True"
| "ToBoolean (JNumber NegInfinity) = True"
| "ToBoolean (JString s) = (s \<noteq> [])"
| "ToBoolean (JArray xs) = True"
| "ToBoolean (JObject ps) = True"

text \<open>
  Reading a property of \<open>undefined\<close> or \<open>null\<close> throws a TypeError; \<open>nullish\<close> is that
  test. On any other value \<open>account.address\<close>, \<open>account.nickname\<close> and \<open>account.safe\<close>
  evaluate to the own property of an object and to \<open>undefined\<close> where there is none
  (no prototype of a parsed value has a property of one of these three names, the only
  names \<open>property\<close> is applied to).
\<close>

definition nullish :: "jsval \<Rightarrow> bool" where
  "nullish v = (case v of JUndefined \<Rightarrow> True | JNull \<Rightarrow> True | _ \<Rightarrow> False)"

definition property :: "jsval \<Rightarrow> string \<Rightarrow> jsval" where
  "property v name =
     (case v of
        JObject ps \<Rightarrow> (case map_of ps name of Some x \<Rightarrow> x | None \<Rightarrow> JUndefined)
      | _ \<Rightarrow> JUndefined)"

text \<open>
  \<open>for (const account of v)\<close>: an array yields its elements, a string its characters
  as one-character strings, and any other parsed value is not iterable.
\<close>

definition iterate :: "jsval \<Rightarrow> error + jsval list" where
  "iterate v =
     (case v of
        JArray xs \<Rightarrow> Inr xs
      | JString s \<Rightarrow> Inr (map (\<lambda>c. JString [c]) s)
      | _ \<Rightarrow> Inl TypeError)"

subsection \<open>BigNumber and parseInt\<close>

text \<open>
  An \<open>ethers.BigNumber\<close> is an integer of any size. \<open>toString()\<close> writes it in decimal.
\<close>

definition digit_char :: "nat \<Rightarrow> char" where
  "digit_char d = char_of (48 + d)"

fun decimal :: "nat \<Rightarrow> string" where
  "decimal n = (if n < 10 then [digit_char n] else decimal (n div 10) @ [digit_char (n mod 10)])"

definition BigNumber_toString :: "int \<Rightarrow> string" where
  "BigNumber_toString n = (if n < 0 then CHR ''-'' # decimal (nat (- n)) else decimal (nat n))"

text \<open>
  \<open>BigNumber.from\<close> on the data a contract call returned: the provider resolves to the
  data as a hex string, \<open>0x\<close> followed by two digits a byte, which \<open>BigNumber.from\<close>
  reads as a big-endian unsigned integer; it rejects the string \<open>0x\<close> of empty data,
  which has no digit.
\<close>

definition big_endian :: "8 word list \<Rightarrow> nat" where
  "big_endian bs = foldl (\<lambda>acc b. 256 * acc + unat b) 0 bs"

definition BigNumber_from :: "8 word list \<Rightarrow> error + int" where
  "BigNumber_from bs = (if bs = [] then Inl InvalidBigNumberString else Inr (int (big_endian bs)))"

text \<open>
  The Number nearest to a natural number: 53 significant bits, ties to the even
  significand; \<open>to_Number\<close> adds the sign and the overflow to infinity.
\<close>

fun bit_width :: "nat \<Rightarrow> nat" where
  "bit_width n = (if n = 0 then 0 else Suc (bit_width (n div 2)))"

definition round_binary64 :: "nat \<Rightarrow> nat" where
  "round_binary64 n =
     (if bit_width n \<le> 53 then n
      else
        (let e = bit_width n - 53;
             q = n div 2 ^ e;
             r = n mod 2 ^ e;
             half = 2 ^ (e - 1)
         in (if half < r \<or> (r = half \<and> odd q) then q + 1 else q) * 2 ^ e))"

text \<open>
  The natural numbers a double holds exactly (the exponent's upper limit aside): those
  whose bits below the top 53 are all zero.
\<close>

definition is_binary64 :: "nat \<Rightarrow> bool" where
  "is_binary64 m = (m mod 2 ^ (bit_width m - 53) = 0)"

definition to_Number :: "int \<Rightarrow> number" where
  "to_Number x =
     (let m = round_binary64 (nat \<bar>x\<bar>)
      in if 2 ^ 1024 \<le> m then (if x < 0 then NegInfinity else PosInfinity)
         else Finite (of_int (sgn x * int m)))"

text \<open>
  \<open>parseInt(string, 10)\<close>: leading white space is skipped, a sign is read, the longest
  run of decimal digits is the integer, and no digit at all gives NaN. (Past 20
  significant digits ECMAScript lets an implementation approximate the integer before
  rounding it; the model rounds the exact integer, as V8 does.)
\<close>

definition StrWhiteSpaceChar :: "char \<Rightarrow> bool" where
  "StrWhiteSpaceChar c = (of_char c \<in> {9, 10, 11, 12, 13, 32, 160 :: nat})"

definition is_digit :: "char \<Rightarrow> bool" where
  "is_digit c = (48 \<le> (of_char c :: nat) \<and> (of_char c :: nat) \<le> 57)"

definition digit_value :: "char \<Rightarrow> nat" where
  "digit_value c = of_char c - 48"

definition parseInt10 :: "string \<Rightarrow> number" where
  "parseInt10 inputString =
     (let S = dropWhile StrWhiteSpaceChar inputString;
          negative = (case S of [] \<Rightarrow> False | c # _ \<Rightarrow> c = CHR ''-'');
          S' = (case S of [] \<Rightarrow> [] | c # cs \<Rightarrow> if c = CHR ''+'' \<or> c = CHR ''-'' then cs else S);
          Z = takeWhile is_digit S'
      in if Z = [] then NaN
         else
           (let mathInt = foldl (\<lambda>acc c. 10 * acc + digit_value c) 0 Z
            in if mathInt = 0 then (if negative then NegZero else Finite 0)
               else to_Number (if negative then - int mathInt else int mathInt)))"

subsection \<open>Provider, metrics, logger\<close>

text \<open>
  The provider (\<open>this.options.rpc\<close>): \<open>getBalance(address)\<close> resolves to a BigNumber or
  throws, \<open>call({to, data})\<close> resolves to the returned data or throws. Both may depend on
  and change a state of the provider's own, of any type \<open>'r\<close>.
\<close>

record 'r provider =
  getBalance :: "jsval \<Rightarrow> 'r \<Rightarrow> (error + int) \<times> 'r"
  call :: "jsval \<Rightarrow> string \<Rightarrow> 'r \<Rightarrow> (error + 8 word list) \<times> 'r"

datatype gauge = Balances | SafeNonces

datatype logged = LVal jsval | LErr error

datatype event =
    EvGetBalance jsval "error + int"
  | EvCall jsval string "error + 8 word list"
  | EvGaugeSet gauge jsval jsval number
  | EvCounterInc string string
  | EvLogInfo string "(string \<times> logged) list"

text \<open>
  What a tick works on: \<open>this.state.accounts\<close>, the provider's state, and the three
  metrics, each by its contract: a gauge holds the last value set for a pair of labels
  (address, nickname), the counter the number of increments for a pair (section, name).
\<close>

record 'r world =
  accounts :: jsval
  rpc :: 'r
  balances :: "jsval \<times> jsval \<Rightarrow> number option"
  safeNonces :: "jsval \<times> jsval \<Rightarrow> number option"
  unexpectedRpcErrors :: "string \<times> string \<Rightarrow> nat"

type_synonym 'r action = "'r world \<Rightarrow> event list \<times> 'r world"

definition seq :: "'r action \<Rightarrow> 'r action \<Rightarrow> 'r action" where
  "seq f g w = (case f w of (es1, w1) \<Rightarrow> (case g w1 of (es2, w2) \<Rightarrow> (es1 @ es2, w2)))"

definition logger_info :: "string \<Rightarrow> (string \<times> logged) list \<Rightarrow> 'r action" where
  "logger_info msg entries w = ([EvLogInfo msg entries], w)"

definition gauge_set :: "gauge \<Rightarrow> jsval \<Rightarrow> jsval \<Rightarrow> number \<Rightarrow> 'r action" where
  "gauge_set g address nickname v w =
     ([EvGaugeSet g address nickname v],
      (case g of
         Balances \<Rightarrow> w\<lparr>balances := (balances w)((address, nickname) \<mapsto> v)\<rparr>
       | SafeNonces \<Rightarrow> w\<lparr>safeNonces := (safeNonces w)((address, nickname) \<mapsto> v)\<rparr>))"

definition counter_inc :: "string \<Rightarrow> string \<Rightarrow> 'r action" where
  "counter_inc section_label name w =
     ([EvCounterInc section_label name],
      w\<lparr>unexpectedRpcErrors :=
          (unexpectedRpcErrors w)
            ((section_label, name) := Suc (unexpectedRpcErrors w (section_label, name)))\<rparr>)"

definition rpc_getBalance ::
  "'r provider \<Rightarrow> jsval \<Rightarrow> 'r world \<Rightarrow> (error + int) \<times> event list \<times> 'r world" where
  "rpc_getBalance p address w =
     (case getBalance p address (rpc w) of
        (res, r) \<Rightarrow> (res, [EvGetBalance address res], w\<lparr>rpc := r\<rparr>))"

definition rpc_call ::
  "'r provider \<Rightarrow> jsval \<Rightarrow> string \<Rightarrow> 'r world \<Rightarrow> (error + 8 word list) \<times> event list \<times> 'r world" where
  "rpc_call p to_address data w =
     (case call p to_address data (rpc w) of
        (res, r) \<Rightarrow> (res, [EvCall to_address data res], w\<lparr>rpc := r\<rparr>))"

subsection \<open>init\<close>

text \<open>
  \<open>this.state.accounts = JSON.parse(this.options.accounts)\<close>. \<open>JSON.parse\<close> is the
  runtime's and is a parameter here: it throws a SyntaxError or returns the value the
  text denotes. Nothing looks at the value's shape.
\<close>

definition init :: "(string \<Rightarrow> error + jsval) \<Rightarrow> string \<Rightarrow> 'r world \<Rightarrow> error + 'r world" where
  "init JSON_parse accounts_option w =
     (case JSON_parse accounts_option of
        Inl err \<Rightarrow> Inl err
      | Inr v \<Rightarrow> Inr (w\<lparr>accounts := v\<rparr>))"

subsection \<open>main\<close>

text \<open>The two \<open>catch\<close> blocks: log the error, count it.\<close>

definition balance_catch :: "error \<Rightarrow> 'r action" where
  "balance_catch err =
     seq (logger_info ''got unexpected RPC error''
            [(''section'', LVal (JString ''balances'')),
             (''name'', LVal (JString ''getBalance'')),
             (''err'', LErr err)])
         (counter_inc ''balances'' ''getBalance'')"

definition nonce_catch :: "error \<Rightarrow> 'r action" where
  "nonce_catch err =
     seq (logger_info ''got unexpected RPC error''
            [(''section'', LVal (JString ''safeNonce'')),
             (''name'', LVal (JString ''getSafeNonce'')),
             (''err'', LErr err)])
         (counter_inc ''safeNonce'' ''getSafeNonce'')"

text \<open>
  The first \<open>try\<close>: \<open>account.address\<close> is read inside it, so a nullish account lands in
  the \<open>catch\<close> too.
\<close>

definition balance_step :: "'r provider \<Rightarrow> jsval \<Rightarrow> 'r action" where
  "balance_step p account w =
     (if nullish account then balance_catch TypeError w
      else
        (case rpc_getBalance p (property account ''address'') w of
           (Inl err, es, w1) \<Rightarrow>
             (case balance_catch err w1 of (es', w2) \<Rightarrow> (es @ es', w2))
         | (Inr balance, es, w1) \<Rightarrow>
             (case seq (logger_info ''got balance''
                          [(''address'', LVal (property account ''address'')),
                           (''nickname'', LVal (property account ''nickname'')),
                           (''balance'', LVal (JString (BigNumber_toString balance)))])
                       (gauge_set Balances (property account ''address'')
                          (property account ''nickname'')
                          (parseInt10 (BigNumber_toString balance))) w1 of
                (es', w2) \<Rightarrow> (es @ es', w2))))"

text \<open>The second \<open>try\<close>, entered when \<open>account.safe\<close> is truthy.\<close>

definition safe_nonce_fetch :: "'r provider \<Rightarrow> jsval \<Rightarrow> 'r action" where
  "safe_nonce_fetch p account w =
     (case rpc_call p (property account ''address'') ''0xaffed0e0'' w of
        (Inl err, es, w1) \<Rightarrow>
          (case nonce_catch err w1 of (es', w2) \<Rightarrow> (es @ es', w2))
      | (Inr data, es, w1) \<Rightarrow>
          (case BigNumber_from data of
             Inl err \<Rightarrow> (case nonce_catch err w1 of (es', w2) \<Rightarrow> (es @ es', w2))
           | Inr safeNonce \<Rightarrow>
               (case seq (logger_info ''got nonce''
                            [(''address'', LVal (property account ''address'')),
                             (''nickname'', LVal (property account ''nickname'')),
                             (''nonce'', LVal (JString (BigNumber_toString safeNonce)))])
                         (gauge_set SafeNonces (property account ''address'')
                            (property account ''nickname'')
                            (parseInt10 (BigNumber_toString safeNonce))) w1 of
                  (es', w2) \<Rightarrow> (es @ es', w2))))"

text \<open>
  \<open>if (account.safe)\<close> stands outside both \<open>try\<close> blocks: on a nullish account the read
  of \<open>account.safe\<close> throws out of \<open>main\<close>.
\<close>

definition nonce_step :: "'r provider \<Rightarrow> jsval \<Rightarrow> 'r world \<Rightarrow> error + event list \<times> 'r world" where
  "nonce_step p account w =
     (if nullish account then Inl TypeError
      else if ToBoolean (property account ''safe'') then Inr (safe_nonce_fetch p account w)
      else Inr ([], w))"

text \<open>
  The loop over the accounts. The result is the error thrown out of \<open>main\<close>, if any, the
  events up to there, and the world they left.
\<close>

fun main_loop :: "'r provider \<Rightarrow> jsval list \<Rightarrow> 'r world \<Rightarrow> error option \<times> event list \<times> 'r world" where
  "main_loop p [] w = (None, [], w)"
| "main_loop p (account # rest) w =
     (case balance_step p account w of
        (es1, w1) \<Rightarrow>
          (case nonce_step p account w1 of
             Inl err \<Rightarrow> (Some err, es1, w1)
           | Inr (es2, w2) \<Rightarrow>
               (case main_loop p rest w2 of
                  (thrown, es3, w3) \<Rightarrow> (thrown, es1 @ es2 @ es3, w3))))"

definition main :: "'r provider \<Rightarrow> 'r world \<Rightarrow> error option \<times> event list \<times> 'r world" where
  "main p w =
     (case iterate (accounts w) of
        Inl err \<Rightarrow> (Some err, [], w)
      | Inr xs \<Rightarrow> main_loop p xs w)"

abbreviation tick_thrown :: "'r provider \<Rightarrow> 'r world \<Rightarrow> error option" where
  "tick_thrown p w \<equiv> fst (main p w)"

abbreviation tick_events :: "'r provider \<Rightarrow> 'r world \<Rightarrow> event list" where
  "tick_events p w \<equiv> fst (snd (main p w))"

abbreviation tick_world :: "'r provider \<Rightarrow> 'r world \<Rightarrow> 'r world" where
  "tick_world p w \<equiv> snd (snd (main p w))"

subsection \<open>Reading the events of a tick\<close>

text \<open>
  The requests a tick sent to the provider, and what the provider answered to the balance
  reads and to the contract calls, in the order they were made.
\<close>

datatype request = ReqGetBalance jsval | ReqCall jsval string

definition requests :: "event list \<Rightarrow> request list" where
  "requests es =
     concat (map (\<lambda>e. case e of
                         EvGetBalance a res \<Rightarrow> [ReqGetBalance a]
                       | EvCall a d res \<Rightarrow> [ReqCall a d]
                       | _ \<Rightarrow> []) es)"

definition balance_responses :: "event list \<Rightarrow> (error + int) list" where
  "balance_responses es = concat (map (\<lambda>e. case e of EvGetBalance a res \<Rightarrow> [res] | _ \<Rightarrow> []) es)"

definition balance_targets :: "event list \<Rightarrow> jsval list" where
  "balance_targets es = concat (map (\<lambda>e. case e of EvGetBalance a res \<Rightarrow> [a] | _ \<Rightarrow> []) es)"

definition call_responses :: "event list \<Rightarrow> (error + 8 word list) list" where
  "call_responses es = concat (map (\<lambda>e. case e of EvCall a d res \<Rightarrow> [res] | _ \<Rightarrow> []) es)"

definition call_targets :: "event list \<Rightarrow> jsval list" where
  "call_targets es = concat (map (\<lambda>e. case e of EvCall a d res \<Rightarrow> [a] | _ \<Rightarrow> []) es)"

text \<open>The requests an account asks for: its balance and, when \<open>safe\<close> is truthy, its nonce.\<close>

definition is_safe :: "jsval \<Rightarrow> bool" where
  "is_safe account = ToBoolean (property account ''safe'')"

definition requests_for :: "jsval \<Rightarrow> request list" where
  "requests_for account =
     ReqGetBalance (property account ''address'') #
     (if is_safe account then [ReqCall (property account ''address'') ''0xaffed0e0''] else [])"

text \<open>
  The two ways a balance read can end: a write to the balance gauge or an increment of
  the error counter under (balances, getBalance). \<open>balance_outcome\<close> is the one that
  belongs to an account and the provider's answer.
\<close>

definition is_balance_outcome :: "event \<Rightarrow> bool" where
  "is_balance_outcome e =
     (case e of
        EvGaugeSet g a n v \<Rightarrow> g = Balances
      | EvCounterInc s n \<Rightarrow> s = ''balances'' \<and> n = ''getBalance''
      | _ \<Rightarrow> False)"

definition balance_outcome :: "jsval \<Rightarrow> error + int \<Rightarrow> event" where
  "balance_outcome account res =
     (case res of
        Inl err \<Rightarrow> EvCounterInc ''balances'' ''getBalance''
      | Inr b \<Rightarrow>
          EvGaugeSet Balances (property account ''address'') (property account ''nickname'')
            (parseInt10 (BigNumber_toString b)))"

text \<open>
  The same for the nonce: the events of interest are the contract calls, the writes to
  the nonce gauge and the increments under (safeNonce, getSafeNonce).
\<close>

definition is_nonce_event :: "event \<Rightarrow> bool" where
  "is_nonce_event e =
     (case e of
        EvCall a d res \<Rightarrow> True
      | EvGaugeSet g a n v \<Rightarrow> g = SafeNonces
      | EvCounterInc s n \<Rightarrow> s = ''safeNonce'' \<and> n = ''getSafeNonce''
      | _ \<Rightarrow> False)"

definition nonce_outcome :: "jsval \<Rightarrow> error + 8 word list \<Rightarrow> event" where
  "nonce_outcome account res =
     (case res of
        Inl err \<Rightarrow> EvCounterInc ''safeNonce'' ''getSafeNonce''
      | Inr data \<Rightarrow>
          if data = [] then EvCounterInc ''safeNonce'' ''getSafeNonce''
          else EvGaugeSet SafeNonces (property account ''address'') (property account ''nickname'')
                 (to_Number (int (big_endian data))))"

definition nonce_fetch_events :: "jsval \<Rightarrow> error + 8 word list \<Rightarrow> event list" where
  "nonce_fetch_events account res =
     [EvCall (property account ''address'') ''0xaffed0e0'' res, nonce_outcome account res]"

text \<open>
  A nonce fetch fails when the call throws or when \<open>BigNumber.from\<close> throws on what
  the call returned.
\<close>

definition nonce_fetch_failed :: "error + 8 word list \<Rightarrow> bool" where
  "nonce_fetch_failed res = (case res of Inl err \<Rightarrow> True | Inr data \<Rightarrow> isl (BigNumber_from data))"

definition is_gauge_write :: "event \<Rightarrow> bool" where
  "is_gauge_write e = (case e of EvGaugeSet g a n v \<Rightarrow> True | _ \<Rightarrow> False)"

text \<open>
  What the specification asks of the parsed configuration: an array of records, each with
  a string \<open>address\<close>, a string \<open>nickname\<close> and a boolean \<open>safe\<close>.
\<close>

definition valid_account :: "jsval \<Rightarrow> bool" where
  "valid_account v =
     (case v of
        JObject ps \<Rightarrow>
          (case map_of ps ''address'' of Some (JString a) \<Rightarrow> True | _ \<Rightarrow> False) \<and>
          (case map_of ps ''nickname'' of Some (JString n) \<Rightarrow> True | _ \<Rightarrow> False) \<and>
          (case map_of ps ''safe'' of Some (JBoolean b) \<Rightarrow> True | _ \<Rightarrow> False)
      | _ \<Rightarrow> False)"

definition valid_accounts :: "jsval \<Rightarrow> bool" where
  "valid_accounts v = (case v of JArray xs \<Rightarrow> list_all valid_account xs | _ \<Rightarrow> False)"

subsection \<open>Example inputs\<close>

definition account :: "string \<Rightarrow> string \<Rightarrow> bool \<Rightarrow> jsval" where
  "account address nickname safe =
     JObject [(''address'', JString address), (''nickname'', JString nickname),
              (''safe'', JBoolean safe)]"

definition alice :: jsval where
  "alice = account ''0xAA'' ''alice'' False"

definition bob :: jsval where
  "bob = account ''0xBB'' ''bob'' True"

definition fresh_world :: "jsval \<Rightarrow> unit world" where
  "fresh_world v =
     \<lparr>accounts = v, rpc = (), balances = Map.empty, safeNonces = Map.empty,
      unexpectedRpcErrors = (\<lambda>k. 0)\<rparr>"

text \<open>A provider that answers every balance read and every call the same way.\<close>

definition constant_provider :: "error + int \<Rightarrow> error + 8 word list \<Rightarrow> unit provider" where
  "constant_provider balance_answer call_answer =
     \<lparr>getBalance = (\<lambda>address r. (balance_answer, r)),
      call = (\<lambda>to_address data r. (call_answer, r))\<rparr>"

text \<open>
  The provider of the specification's two scenarios at once: the balance of \<open>0xAA\<close> is
  \<open>1000000000000000000\<close>, every other balance read throws, every call returns the
  byte \<open>0x05\<close>.
\<close>

definition scenario_provider :: "unit provider" where
  "scenario_provider =
     \<lparr>getBalance = (\<lambda>address r.
        (if address = JString ''0xAA'' then Inr 1000000000000000000
         else Inl (RpcError ''timeout''), r)),
      call = (\<lambda>to_address data r. (Inr [0x05], r))\<rparr>"

text \<open>
  A provider whose balance reads all throw and whose calls all return no data, and a
  world where both gauges already hold a value for \<open>bob\<close>.
\<close>

definition failing_provider :: "unit provider" where
  "failing_provider = constant_provider (Inl (RpcError ''timeout'')) (Inr [])"

definition seeded_world :: "unit world" where
  "seeded_world =
     (fresh_world (JArray [bob]))
       \<lparr>balances := [(JString ''0xBB'', JString ''bob'') \<mapsto> Finite 42],
        safeNonces := [(JString ''0xBB'', JString ''bob'') \<mapsto> Finite 7]\<rparr>"

text \<open>
  Accounts as \<open>JSON.parse\<close> can return them: \<open>safe\<close> is the string \<open>"false"\<close>, the
  number 1, the number 0, \<open>null\<close>, and missing.
\<close>

definition loosely_typed_accounts :: "jsval list" where
  "loosely_typed_accounts =
     [JObject [(''address'', JString ''0x01''), (''nickname'', JString ''one''),
               (''safe'', JString ''false'')],
      JObject [(''address'', JString ''0x02''), (''nickname'', JString ''two''),
               (''safe'', JNumber (Finite 1))],
      JObject [(''address'', JString ''0x03''), (''nickname'', JString ''three''),
               (''safe'', JNumber (Finite 0))],
      JObject [(''address'', JString ''0x04''), (''nickname'', JString ''four''),
               (''safe'', JNull)],
      JObject [(''address'', JString ''0x05''), (''nickname'', JString ''five'')]]"

text \<open>
  \<open>JSON.parse\<close> on the text \<open>[{}]\<close>, an array of one record with no field at all, and
  on a text that is no JSON; only these two texts are given to \<open>parse_sample\<close>.
\<close>

definition parse_sample :: "string \<Rightarrow> error + jsval" where
  "parse_sample text = (if text = ''[{}]'' then Inr (JArray [JObject []]) else Inl SyntaxError)"

section \<open>Decimal strings and rounding\<close>

declare bit_width.simps [simp del]
declare decimal.simps [simp del]

lemma is_digit_digit_char: "d < 10 \<Longrightarrow> is_digit (digit_char d)"
  by (simp add: is_digit_def digit_char_def)

lemma digit_value_digit_char: "d < 10 \<Longrightarrow> digit_value (digit_char d) = d"
  by (simp add: digit_value_def digit_char_def)

lemma decimal_digits: "c \<in> set (decimal n) \<Longrightarrow> is_digit c"
proof (induction n rule: decimal.induct)
  case (1 n)
  show ?case
  proof (cases "n < 10")
    case True
    with "1.prems" show ?thesis
      by (simp add: decimal.simps [of n] is_digit_digit_char)
  next
    case False
    with "1.prems" "1.IH" show ?thesis
      by (auto simp: decimal.simps [of n] is_digit_digit_char)
  qed
qed

lemma decimal_not_Nil: "decimal n \<noteq> []"
  by (subst decimal.simps) simp

lemma decimal_value: "foldl (\<lambda>acc c. 10 * acc + digit_value c) 0 (decimal n) = n"
proof (induction n rule: decimal.induct)
  case (1 n)
  show ?case
  proof (cases "n < 10")
    case True
    then show ?thesis
      by (simp add: decimal.simps [of n] digit_value_digit_char)
  next
    case False
    with "1.IH" show ?thesis
      by (simp add: decimal.simps [of n] digit_value_digit_char)
  qed
qed

lemma digit_not_space: "is_digit c \<Longrightarrow> \<not> StrWhiteSpaceChar c"
  by (auto simp: is_digit_def StrWhiteSpaceChar_def)

lemma digit_not_sign: "is_digit c \<Longrightarrow> c \<noteq> CHR ''-'' \<and> c \<noteq> CHR ''+''"
  by (auto simp: is_digit_def)

lemma bit_width_zero: "bit_width 0 = 0"
  by (simp add: bit_width.simps)

lemma to_Number_zero: "to_Number 0 = Finite 0"
  by (simp add: to_Number_def round_binary64_def bit_width_zero)

lemma parseInt10_unsigned:
  assumes "\<not> StrWhiteSpaceChar c" "c \<noteq> CHR ''-''" "c \<noteq> CHR ''+''"
  shows "parseInt10 (c # cs) =
    (if takeWhile is_digit (c # cs) = [] then NaN
     else if foldl (\<lambda>acc c. 10 * acc + digit_value c) 0 (takeWhile is_digit (c # cs)) = 0
       then Finite 0
       else to_Number (int (foldl (\<lambda>acc c. 10 * acc + digit_value c) 0 (takeWhile is_digit (c # cs)))))"
  using assms by (simp add: parseInt10_def Let_def del: takeWhile.simps foldl.simps)

lemma parseInt10_negative:
  "parseInt10 (CHR ''-'' # cs) =
    (if takeWhile is_digit cs = [] then NaN
     else if foldl (\<lambda>acc c. 10 * acc + digit_value c) 0 (takeWhile is_digit cs) = 0
       then NegZero
       else to_Number (- int (foldl (\<lambda>acc c. 10 * acc + digit_value c) 0 (takeWhile is_digit cs))))"
  by (simp add: parseInt10_def Let_def StrWhiteSpaceChar_def del: takeWhile.simps foldl.simps)

lemma takeWhile_decimal: "takeWhile is_digit (decimal m) = decimal m"
  using decimal_digits [of _ m] by (simp add: takeWhile_eq_all_conv)

lemma parseInt10_decimal:
  "parseInt10 (decimal m) = to_Number (int m)"
proof -
  obtain c cs where d: "decimal m = c # cs"
    using decimal_not_Nil [of m] by (cases "decimal m") auto
  have c: "is_digit c"
    using decimal_digits [of c m] d by simp
  have "parseInt10 (c # cs) =
    (if takeWhile is_digit (c # cs) = [] then NaN
     else if foldl (\<lambda>acc c. 10 * acc + digit_value c) 0 (takeWhile is_digit (c # cs)) = 0
       then Finite 0
       else to_Number (int (foldl (\<lambda>acc c. 10 * acc + digit_value c) 0 (takeWhile is_digit (c # cs)))))"
    using digit_not_space [OF c] digit_not_sign [OF c] by (intro parseInt10_unsigned) simp_all
  then have "parseInt10 (decimal m) = (if m = 0 then Finite 0 else to_Number (int m))"
    unfolding d [symmetric] takeWhile_decimal decimal_value
    using decimal_not_Nil [of m] by simp
  then show ?thesis
    by (simp add: to_Number_zero)
qed

lemma parseInt10_minus_decimal:
  assumes "0 < m"
  shows "parseInt10 (CHR ''-'' # decimal m) = to_Number (- int m)"
  unfolding parseInt10_negative takeWhile_decimal decimal_value
  using assms decimal_not_Nil [of m] by simp

lemma parseInt10_toString: "parseInt10 (BigNumber_toString n) = to_Number n"
proof (cases "n < 0")
  case True
  then show ?thesis
    using parseInt10_minus_decimal [of "nat (- n)"] by (simp add: BigNumber_toString_def)
next
  case False
  then show ?thesis
    using parseInt10_decimal [of "nat n"] by (simp add: BigNumber_toString_def)
qed

lemma bit_width_le: "bit_width n \<le> k \<longleftrightarrow> n < 2 ^ k"
proof (induction n arbitrary: k rule: bit_width.induct)
  case (1 n)
  show ?case
  proof (cases "n = 0")
    case True
    then show ?thesis by (simp add: bit_width_zero)
  next
    case False
    show ?thesis
    proof (cases k)
      case 0
      with False show ?thesis by (simp add: bit_width.simps [of n])
    next
      case (Suc k')
      have "n div 2 < 2 ^ k' \<longleftrightarrow> n < 2 * 2 ^ k'" by auto
      with False Suc "1.IH" [of k'] show ?thesis
        by (simp add: bit_width.simps [of n])
    qed
  qed
qed

lemma round_binary64_small: "n \<le> 2 ^ 53 \<Longrightarrow> round_binary64 n = n"
proof (cases "n < 2 ^ 53")
  case True
  then show ?thesis by (simp add: round_binary64_def bit_width_le)
next
  case False
  assume "n \<le> 2 ^ 53"
  with False have n: "n = 2 ^ 53" by simp
  have "bit_width n \<le> 54" "\<not> bit_width n \<le> 53"
    unfolding bit_width_le n by simp_all
  then have "bit_width n = 54" by simp
  then show ?thesis by (simp add: round_binary64_def n)
qed

lemma round_binary64_near:
  "2 ^ 53 * (if n \<le> round_binary64 n then round_binary64 n - n else n - round_binary64 n) \<le> n"
proof (cases "bit_width n \<le> 53")
  case True
  then show ?thesis by (simp add: round_binary64_def)
next
  case False
  define e where "e = bit_width n - 53"
  define q where "q = n div 2 ^ e"
  define r where "r = n mod 2 ^ e"
  define h :: nat where "h = 2 ^ (e - 1)"
  define R where "R = round_binary64 n"
  define d where "d = (if n \<le> R then R - n else n - R)"
  from False have e: "0 < e" "bit_width n = e + 53" by (simp_all add: e_def)
  have n: "n = q * 2 ^ e + r"
    using div_mult_mod_eq [of n "2 ^ e"] by (simp add: q_def r_def)
  have r: "r < 2 ^ e" by (simp add: r_def)
  have he: "(2::nat) ^ e = 2 * h" using e(1) by (cases e) (simp_all add: h_def)
  have "\<not> bit_width n \<le> e + 52" using e by simp
  then have "2 ^ (e + 52) \<le> n" by (simp add: bit_width_le)
  moreover have "(2::nat) ^ (e + 52) = 2 ^ 53 * h"
    unfolding power_add he by simp
  ultimately have big: "2 ^ 53 * h \<le> n" by simp
  have rd: "R = (if h < r \<or> (r = h \<and> odd q) then q + 1 else q) * 2 ^ e"
    using False by (simp add: R_def round_binary64_def Let_def e_def q_def r_def h_def)
  have "d \<le> h"
  proof (cases "h < r \<or> (r = h \<and> odd q)")
    case True
    then have "R = q * 2 ^ e + 2 * h" using rd he by simp
    with n r he have "d = 2 * h - r" by (simp add: d_def)
    with True show ?thesis by auto
  next
    case False
    then have "R = q * 2 ^ e" using rd by simp
    with n have "d = r" by (simp add: d_def)
    with False show ?thesis by auto
  qed
  then have "2 ^ 53 * d \<le> 2 ^ 53 * h" by (rule mult_le_mono2)
  then have "2 ^ 53 * d \<le> n" using big by (rule le_trans)
  then show ?thesis unfolding d_def R_def .
qed

lemma bit_width_eq: "2 ^ k \<le> n \<Longrightarrow> n < 2 ^ Suc k \<Longrightarrow> bit_width n = Suc k"
proof -
  assume "2 ^ k \<le> n" and "n < 2 ^ Suc k"
  then have "\<not> bit_width n \<le> k" and "bit_width n \<le> Suc k"
    unfolding bit_width_le by simp_all
  then show ?thesis by simp
qed

lemma to_Number_exact: "\<bar>x\<bar> \<le> 2 ^ 53 \<Longrightarrow> to_Number x = Finite (of_int x)"
proof -
  assume a: "\<bar>x\<bar> \<le> 2 ^ 53"
  then have "nat \<bar>x\<bar> \<le> 2 ^ 53" by simp
  then have r: "round_binary64 (nat \<bar>x\<bar>) = nat \<bar>x\<bar>" by (rule round_binary64_small)
  have "sgn x * \<bar>x\<bar> = x" by (simp add: mult_sgn_abs)
  moreover have "\<not> (2::nat) ^ 1024 \<le> nat \<bar>x\<bar>" using a by simp
  ultimately show ?thesis by (simp add: to_Number_def r)
qed

lemma round_binary64_1e18: "round_binary64 1000000000000000000 = 1000000000000000000"
proof -
  have "bit_width 1000000000000000000 = Suc 59"
    by (rule bit_width_eq) simp_all
  then show ?thesis by (simp add: round_binary64_def)
qed

lemma to_Number_1e18: "to_Number 1000000000000000000 = Finite 1000000000000000000"
  by (simp add: to_Number_def round_binary64_1e18)

lemma round_binary64_tie_down: "round_binary64 9007199254740993 = 9007199254740992"
proof -
  have "bit_width 9007199254740993 = Suc 53"
    by (rule bit_width_eq) simp_all
  then show ?thesis by (simp add: round_binary64_def)
qed

lemma round_binary64_tie_up: "round_binary64 9007199254740995 = 9007199254740996"
proof -
  have "bit_width 9007199254740995 = Suc 53"
    by (rule bit_width_eq) simp_all
  then show ?thesis by (simp add: round_binary64_def)
qed

lemma round_binary64_finite:
  assumes "n < 2 ^ 1023"
  shows "round_binary64 n < 2 ^ 1024"
proof (cases "n \<le> round_binary64 n")
  case True
  with round_binary64_near [of n] have "2 ^ 53 * (round_binary64 n - n) \<le> n"
    by simp
  moreover have "round_binary64 n - n \<le> 2 ^ 53 * (round_binary64 n - n)"
    by simp
  ultimately have "round_binary64 n \<le> n + n"
    using True by linarith
  also have "\<dots> < 2 ^ 1023 + 2 ^ 1023"
    using assms assms by (rule add_strict_mono)
  finally show ?thesis by simp
next
  case False
  then have "round_binary64 n < n" by simp
  also have "n < 2 ^ 1024" using assms by (rule less_trans) simp
  finally show ?thesis .
qed

lemma to_Number_nat:
  assumes "0 \<le> b" and "b < 2 ^ 1023"
  shows "to_Number b = Finite (of_nat (round_binary64 (nat b)))"
proof -
  have "nat b < 2 ^ 1023" using assms by (simp add: nat_less_iff)
  then have f: "\<not> 2 ^ 1024 \<le> round_binary64 (nat b)"
    using round_binary64_finite [of "nat b"] by simp
  show ?thesis
  proof (cases "b = 0")
    case True
    then show ?thesis by (simp add: to_Number_zero round_binary64_small)
  next
    case False
    with assms have "sgn b = 1" by simp
    with assms f show ?thesis by (simp add: to_Number_def)
  qed
qed

lemma to_Number_near:
  assumes "0 \<le> b"
  shows "2 ^ 53 * \<bar>int (round_binary64 (nat b)) - b\<bar> \<le> b"
proof -
  define n where "n = nat b"
  have b: "b = int n" using assms by (simp add: n_def)
  have "2 ^ 53 * \<bar>int (round_binary64 n) - int n\<bar> \<le> int n"
  proof (cases "n \<le> round_binary64 n")
    case True
    with round_binary64_near [of n] have "2 ^ 53 * (round_binary64 n - n) \<le> n"
      by simp
    then have "int (2 ^ 53 * (round_binary64 n - n)) \<le> int n"
      by (simp only: of_nat_le_iff)
    with True show ?thesis by (simp add: of_nat_diff)
  next
    case False
    with round_binary64_near [of n] have "2 ^ 53 * (n - round_binary64 n) \<le> n"
      by simp
    then have "int (2 ^ 53 * (n - round_binary64 n)) \<le> int n"
      by (simp only: of_nat_le_iff)
    with False show ?thesis by (simp add: of_nat_diff)
  qed
  then show ?thesis by (simp add: b)
qed

lemma bit_width_ge: "k \<le> bit_width m \<longleftrightarrow> (k = 0 \<or> 2 ^ (k - 1) \<le> m)"
proof (cases k)
  case 0
  then show ?thesis by simp
next
  case (Suc j)
  have "\<not> bit_width m \<le> j \<longleftrightarrow> \<not> m < 2 ^ j"
    by (simp only: bit_width_le)
  with Suc show ?thesis by auto
qed

lemma round_binary64_large:
  assumes "\<not> bit_width n \<le> 53"
  shows "\<exists>e q r h. 0 < e \<and> bit_width n = e + 53 \<and> n = q * 2 ^ e + r \<and> r < 2 ^ e \<and>
           (2::nat) ^ e = 2 * h \<and> 2 ^ 52 \<le> q \<and> q < 2 ^ 53 \<and>
           round_binary64 n = (if h < r \<or> (r = h \<and> odd q) then q + 1 else q) * 2 ^ e"
proof -
  define e where "e = bit_width n - 53"
  define q where "q = n div 2 ^ e"
  define r where "r = n mod 2 ^ e"
  define h :: nat where "h = 2 ^ (e - 1)"
  from assms have e: "0 < e" "bit_width n = e + 53" by (simp_all add: e_def)
  have n: "n = q * 2 ^ e + r"
    using div_mult_mod_eq [of n "2 ^ e"] by (simp add: q_def r_def)
  have r: "r < 2 ^ e" by (simp add: r_def)
  have he: "(2::nat) ^ e = 2 * h" using e(1) by (cases e) (simp_all add: h_def)
  have "\<not> bit_width n \<le> e + 52" using e by simp
  then have lo: "2 ^ (e + 52) \<le> n" by (simp add: bit_width_le)
  have "bit_width n \<le> e + 53" using e by simp
  then have hi: "n < 2 ^ (e + 53)" by (simp add: bit_width_le)
  have q1: "2 ^ 52 \<le> q"
  proof -
    have "2 ^ 52 * 2 ^ e \<le> n" using lo by (simp add: power_add mult.commute)
    then have "(2 ^ 52 * 2 ^ e) div 2 ^ e \<le> n div 2 ^ e" by (rule div_le_mono)
    then show ?thesis by (simp add: q_def)
  qed
  have q2: "q < 2 ^ 53"
  proof -
    have "n < 2 ^ 53 * 2 ^ e" using hi by (simp add: power_add mult.commute)
    then show ?thesis unfolding q_def by (simp add: less_mult_imp_div_less)
  qed
  have rd: "round_binary64 n = (if h < r \<or> (r = h \<and> odd q) then q + 1 else q) * 2 ^ e"
    using assms by (simp add: round_binary64_def Let_def e_def q_def r_def h_def)
  from e n r he q1 q2 rd show ?thesis by blast
qed

lemma is_binary64_small: "bit_width m \<le> 53 \<Longrightarrow> is_binary64 m"
  by (simp add: is_binary64_def)

lemma is_binary64_mult:
  assumes "q \<le> 2 ^ 53"
  shows "is_binary64 (q * 2 ^ e)"
proof (cases "bit_width (q * 2 ^ e) \<le> 53")
  case True
  then show ?thesis by (rule is_binary64_small)
next
  case False
  have "q * 2 ^ e < 2 ^ (e + 54)"
  proof -
    have "q * 2 ^ e \<le> 2 ^ 53 * 2 ^ e" using assms by simp
    also have "\<dots> < 2 ^ 54 * 2 ^ e" by simp
    finally show ?thesis by (simp add: power_add mult.commute)
  qed
  then have "bit_width (q * 2 ^ e) \<le> e + 54" by (simp add: bit_width_le)
  then have le: "bit_width (q * 2 ^ e) - 53 \<le> e + 1" by simp
  show ?thesis
  proof (cases "bit_width (q * 2 ^ e) - 53 \<le> e")
    case True
    then have "(2::nat) ^ (bit_width (q * 2 ^ e) - 53) dvd 2 ^ e"
      by (simp add: le_imp_power_dvd)
    then have "2 ^ (bit_width (q * 2 ^ e) - 53) dvd q * 2 ^ e"
      by (rule dvd_mult)
    then show ?thesis by (simp add: is_binary64_def)
  next
    case F: False
    with le have w: "bit_width (q * 2 ^ e) = e + 54" by simp
    then have "\<not> bit_width (q * 2 ^ e) \<le> e + 53" by simp
    then have "2 ^ (e + 53) \<le> q * 2 ^ e" by (simp add: bit_width_le)
    then have "2 ^ 53 * 2 ^ e \<le> q * 2 ^ e" by (simp add: power_add mult.commute)
    then have "2 ^ 53 \<le> q" by simp
    with assms have "q = 2 ^ 53" by simp
    then have "q * 2 ^ e = 2 ^ (e + 53)" by (simp add: power_add mult.commute)
    then have "q * 2 ^ e = 2 ^ 52 * 2 ^ (e + 1)" by (simp add: power_add)
    then have "2 ^ (e + 1) dvd q * 2 ^ e" by simp
    then show ?thesis by (simp add: is_binary64_def w)
  qed
qed

lemma round_binary64_is_binary64: "is_binary64 (round_binary64 n)"
proof (cases "bit_width n \<le> 53")
  case True
  then show ?thesis by (simp add: round_binary64_def is_binary64_small)
next
  case False
  from round_binary64_large [OF False] obtain e q r h where
    q: "q < 2 ^ 53" and
    rd: "round_binary64 n = (if (h::nat) < r \<or> (r = h \<and> odd q) then q + 1 else q) * 2 ^ e"
    by blast
  have "(if h < r \<or> (r = h \<and> odd q) then q + 1 else q) \<le> 2 ^ 53"
    using q by simp
  then show ?thesis unfolding rd by (rule is_binary64_mult)
qed

lemma round_binary64_nearest:
  assumes "is_binary64 m"
  shows "\<bar>int (round_binary64 n) - int n\<bar> \<le> \<bar>int m - int n\<bar>"
proof (cases "bit_width n \<le> 53")
  case True
  then show ?thesis by (simp add: round_binary64_def)
next
  case False
  from round_binary64_large [OF False] obtain e q r h where
    e: "0 < e" and bw: "bit_width n = e + 53" and n: "n = q * 2 ^ e + r" and r: "r < 2 ^ e" and
    he: "(2::nat) ^ e = 2 * h" and q1: "2 ^ 52 \<le> q" and
    rd: "round_binary64 n = (if h < r \<or> (r = h \<and> odd q) then q + 1 else q) * 2 ^ e"
    by blast
  define R where "R = round_binary64 n"
  define E :: nat where "E = 2 ^ e"
  have E: "E = 2 * h" "r < E" "n = q * E + r" using he r n by (simp_all add: E_def)
  have Rv: "R = (if h < r \<or> (r = h \<and> odd q) then q * E + E else q * E)"
    using rd by (simp add: R_def E_def)
  have near: "\<bar>int R - int n\<bar> \<le> int r" "\<bar>int R - int n\<bar> \<le> int E - int r"
    using E Rv by (auto split: if_splits)
  have "\<bar>int R - int n\<bar> \<le> \<bar>int m - int n\<bar>"
  proof (cases "e + 53 \<le> bit_width m")
    case True
    then have "e \<le> bit_width m - 53" by simp
    then have "(2::nat) ^ e dvd 2 ^ (bit_width m - 53)" by (simp add: le_imp_power_dvd)
    moreover have "2 ^ (bit_width m - 53) dvd m"
      using assms by (simp add: is_binary64_def mod_eq_0_iff_dvd)
    ultimately have "E dvd m" unfolding E_def by (rule dvd_trans)
    then obtain j where m: "m = j * E" by (auto simp: dvd_def mult.commute)
    show ?thesis
    proof (cases "j \<le> q")
      case True
      then have "j * E \<le> q * E" by simp
      then have "int m \<le> int (q * E)" unfolding m by (simp only: of_nat_le_iff)
      then have "int r \<le> \<bar>int m - int n\<bar>" using E(3) by simp
      with near(1) show ?thesis by simp
    next
      case False
      then have "q + 1 \<le> j" by simp
      then have "(q + 1) * E \<le> j * E" by (rule mult_le_mono1)
      then have "int (q * E + E) \<le> int m" unfolding m by (simp only: of_nat_le_iff) simp
      then have "int E - int r \<le> \<bar>int m - int n\<bar>" using E(3) by simp
      with near(2) show ?thesis by simp
    qed
  next
    case False
    then have "bit_width m \<le> e + 52" by simp
    then have "m < 2 ^ (e + 52)" by (simp add: bit_width_le)
    also have "(2::nat) ^ (e + 52) = 2 ^ 52 * E" by (simp add: E_def power_add mult.commute)
    also have "\<dots> \<le> q * E" using q1 by simp
    finally have "int m < int (q * E)" by (simp only: of_nat_less_iff)
    then have "int r \<le> \<bar>int m - int n\<bar>" using E(3) by simp
    with near(1) show ?thesis by simp
  qed
  then show ?thesis by (simp add: R_def)
qed

lemma round_binary64_ties_to_even:
  assumes m: "is_binary64 m" and ne: "m \<noteq> round_binary64 n"
    and tie: "\<bar>int m - int n\<bar> = \<bar>int (round_binary64 n) - int n\<bar>"
  shows "even (round_binary64 n div 2 ^ (bit_width n - 53))"
proof (cases "bit_width n \<le> 53")
  case True
  with ne tie show ?thesis by (simp add: round_binary64_def)
next
  case False
  from round_binary64_large [OF False] obtain e q r h where
    e: "0 < e" and bw: "bit_width n = e + 53" and n: "n = q * 2 ^ e + r" and r: "r < 2 ^ e" and
    he: "(2::nat) ^ e = 2 * h" and q1: "2 ^ 52 \<le> q" and
    rd: "round_binary64 n = (if h < r \<or> (r = h \<and> odd q) then q + 1 else q) * 2 ^ e"
    by blast
  define R where "R = round_binary64 n"
  define E :: nat where "E = 2 ^ e"
  define Q where "Q = q * E"
  have E: "E = 2 * h" "r < E" "n = Q + r" using he r n by (simp_all add: E_def Q_def)
  have Rv: "R = (if h < r \<or> (r = h \<and> odd q) then Q + E else Q)"
    using rd by (simp add: R_def E_def Q_def)
  have ne': "m \<noteq> R" and tie': "\<bar>int m - int n\<bar> = \<bar>int R - int n\<bar>"
    using ne tie by (simp_all add: R_def)
  have quot: "R div E = (if h < r \<or> (r = h \<and> odd q) then q + 1 else q)"
    using rd by (simp add: R_def E_def)
  have "even (R div E)"
  proof (cases "e + 53 \<le> bit_width m")
    case True
    then have "e \<le> bit_width m - 53" by simp
    then have "(2::nat) ^ e dvd 2 ^ (bit_width m - 53)" by (simp add: le_imp_power_dvd)
    moreover have "2 ^ (bit_width m - 53) dvd m"
      using m by (simp add: is_binary64_def mod_eq_0_iff_dvd)
    ultimately have "E dvd m" unfolding E_def by (rule dvd_trans)
    then obtain j where mj: "m = j * E" by (auto simp: dvd_def mult.commute)
    consider "j < q" | "j = q" | "j = q + 1" | "q + 2 \<le> j" by linarith
    then show ?thesis
    proof cases
      case 1
      then have "j + 1 \<le> q" by simp
      then have "(j + 1) * E \<le> q * E" by (rule mult_le_mono1)
      then have "m + E \<le> Q" by (simp add: mj Q_def)
      with E Rv tie' show ?thesis by (auto split: if_splits)
    next
      case 2
      then have "m = Q" by (simp add: mj Q_def)
      with E Rv tie' ne' quot show ?thesis by (auto split: if_splits)
    next
      case 3
      then have "m = Q + E" by (simp add: mj Q_def)
      with E Rv tie' ne' quot show ?thesis by (auto split: if_splits)
    next
      case 4
      then have "(q + 2) * E \<le> j * E" by (rule mult_le_mono1)
      then have "Q + 2 * E \<le> m" by (simp add: mj Q_def)
      with E Rv tie' show ?thesis by (auto split: if_splits)
    qed
  next
    case False
    then have "bit_width m \<le> e + 52" by simp
    then have "m < 2 ^ (e + 52)" by (simp add: bit_width_le)
    also have "(2::nat) ^ (e + 52) = 2 ^ 52 * E" by (simp add: E_def power_add mult.commute)
    also have "\<dots> \<le> Q" using q1 by (simp add: Q_def)
    finally have "m < Q" .
    with E Rv tie' show ?thesis by (auto split: if_splits)
  qed
  then show ?thesis by (simp add: R_def E_def bw)
qed

section \<open>The tick\<close>

lemmas step_defs =
  balance_step_def safe_nonce_fetch_def rpc_getBalance_def rpc_call_def balance_catch_def
  nonce_catch_def seq_def logger_info_def gauge_set_def counter_inc_def

declare main_loop.simps(2) [simp del]

lemma nonce_step_Inr:
  "\<not> nullish a \<Longrightarrow>
   nonce_step p a w = Inr (if is_safe a then safe_nonce_fetch p a w else ([], w))"
  by (simp add: nonce_step_def is_safe_def)

lemma main_loop_Cons:
  "\<not> nullish a \<Longrightarrow>
   main_loop p (a # xs) w =
     (let bw = balance_step p a w;
          nw = (if is_safe a then safe_nonce_fetch p a (snd bw) else ([], snd bw));
          rest = main_loop p xs (snd nw)
      in (fst rest, fst bw @ fst nw @ fst (snd rest), snd (snd rest)))"
  by (simp add: main_loop.simps(2) nonce_step_Inr case_prod_beta Let_def)

lemma main_loop_Cons_nullish:
  "nullish a \<Longrightarrow>
   main_loop p (a # xs) w = (Some TypeError, balance_catch TypeError w)"
  by (simp add: main_loop.simps(2) nonce_step_def balance_step_def case_prod_beta)

lemma main_array: "accounts w = JArray xs \<Longrightarrow> main p w = main_loop p xs w"
  by (simp add: main_def iterate_def)

lemma loop_thrown: "\<forall>a\<in>set xs. \<not> nullish a \<Longrightarrow> fst (main_loop p xs w) = None"
  by (induction xs arbitrary: w) (simp_all add: main_loop_Cons Let_def)

lemmas eval_defs =
  main_def iterate_def main_loop.simps nonce_step_def step_defs nullish_def property_def
  parseInt10_toString BigNumber_from_def big_endian_def

lemmas example_defs =
  alice_def bob_def account_def fresh_world_def constant_provider_def scenario_provider_def

subsection \<open>The requests of a tick\<close>

lemma requests_append: "requests (es @ es') = requests es @ requests es'"
  by (simp add: requests_def)

lemma requests_Nil: "requests [] = []"
  by (simp add: requests_def)

lemma balance_step_requests:
  "\<not> nullish a \<Longrightarrow> requests (fst (balance_step p a w)) = [ReqGetBalance (property a ''address'')]"
  by (simp add: step_defs requests_def split: prod.splits sum.splits)

lemma safe_nonce_fetch_requests:
  "requests (fst (safe_nonce_fetch p a w)) = [ReqCall (property a ''address'') ''0xaffed0e0'']"
  by (simp add: step_defs requests_def split: prod.splits sum.splits)

lemma loop_requests:
  "\<forall>a\<in>set xs. \<not> nullish a \<Longrightarrow>
   requests (fst (snd (main_loop p xs w))) = concat (map requests_for xs)"
  by (induction xs arbitrary: w)
     (simp_all add: main_loop_Cons Let_def requests_append balance_step_requests
        safe_nonce_fetch_requests requests_for_def requests_Nil)

text \<open>
  C1. Whatever the provider answers, a tick over an array of accounts (none of them
  \<open>null\<close>) throws nothing and sends the provider exactly the requests the accounts ask
  for, in the order of the list: the balance of each account and, for each account whose
  \<open>safe\<close> is truthy, the nonce call. No answer of the provider, failed balance reads
  included, takes a request away: not the nonce call of the same account, not the
  requests of a later one.
\<close>

theorem failed_reads_do_not_stop_the_tick:
  assumes "accounts w = JArray xs" and "\<forall>a\<in>set xs. \<not> nullish a"
  shows "tick_thrown p w = None \<and> requests (tick_events p w) = concat (map requests_for xs)"
  using assms by (simp add: main_array loop_thrown loop_requests)


theorem failed_reads_do_not_stop_the_tick_witness:
  "tick_thrown (constant_provider (Inl (RpcError ''timeout'')) (Inr [5]))
     (fresh_world (JArray [alice, bob])) = None \<and>
   requests (tick_events (constant_provider (Inl (RpcError ''timeout'')) (Inr [5]))
     (fresh_world (JArray [alice, bob]))) =
     [ReqGetBalance (JString ''0xAA''), ReqGetBalance (JString ''0xBB''),
      ReqCall (JString ''0xBB'') ''0xaffed0e0'']"
  using failed_reads_do_not_stop_the_tick [of "fresh_world (JArray [alice, bob])" "[alice, bob]"
      "constant_provider (Inl (RpcError ''timeout'')) (Inr [5])"]
  by (simp add: fresh_world_def alice_def bob_def account_def nullish_def requests_for_def
      is_safe_def property_def)

subsection \<open>The outcome of each balance read\<close>

lemma balance_responses_append:
  "balance_responses (es @ es') = balance_responses es @ balance_responses es'"
  by (simp add: balance_responses_def)

lemma balance_responses_Nil: "balance_responses [] = []"
  by (simp add: balance_responses_def)

lemma balance_step_responses:
  "\<not> nullish a \<Longrightarrow>
   balance_responses (fst (balance_step p a w)) =
     [fst (getBalance p (property a ''address'') (rpc w))]"
  by (simp add: step_defs balance_responses_def split: prod.splits sum.splits)

lemma safe_nonce_fetch_balance_responses:
  "balance_responses (fst (safe_nonce_fetch p a w)) = []"
  by (simp add: step_defs balance_responses_def split: prod.splits sum.splits)

lemma balance_step_outcome:
  "\<not> nullish a \<Longrightarrow>
   filter is_balance_outcome (fst (balance_step p a w)) =
     [balance_outcome a (fst (getBalance p (property a ''address'') (rpc w)))]"
  by (simp add: step_defs is_balance_outcome_def balance_outcome_def
      split: prod.splits sum.splits)

lemma safe_nonce_fetch_balance_outcome:
  "filter is_balance_outcome (fst (safe_nonce_fetch p a w)) = []"
  by (simp add: step_defs is_balance_outcome_def split: prod.splits sum.splits)

lemma loop_balance_outcomes:
  "\<forall>a\<in>set xs. \<not> nullish a \<Longrightarrow>
   length (balance_responses (fst (snd (main_loop p xs w)))) = length xs \<and>
   filter is_balance_outcome (fst (snd (main_loop p xs w))) =
     map2 balance_outcome xs (balance_responses (fst (snd (main_loop p xs w))))"
  by (induction xs arbitrary: w)
     (simp_all add: main_loop_Cons Let_def balance_responses_append balance_responses_Nil
        balance_step_responses safe_nonce_fetch_balance_responses balance_step_outcome
        safe_nonce_fetch_balance_outcome)

text \<open>
  C2. In a tick over an array of accounts (none of them \<open>null\<close>) the provider is asked for
  one balance per account, and the writes to the balance gauge and the increments of the
  error counter under (balances, getBalance), taken in order, are one per account, in the
  order of the list: the write labelled with the account's address and nickname when the
  account's balance read succeeded, the increment when it failed.
\<close>

theorem one_balance_outcome_per_account:
  assumes "accounts w = JArray xs" and "\<forall>a\<in>set xs. \<not> nullish a"
  shows "length (balance_responses (tick_events p w)) = length xs \<and>
         filter is_balance_outcome (tick_events p w) =
           map2 balance_outcome xs (balance_responses (tick_events p w))"
  using assms by (simp add: main_array loop_balance_outcomes)

theorem one_balance_outcome_per_account_witness:
  "balance_responses (tick_events scenario_provider (fresh_world (JArray [alice, bob]))) =
     [Inr 1000000000000000000, Inl (RpcError ''timeout'')] \<and>
   filter is_balance_outcome (tick_events scenario_provider (fresh_world (JArray [alice, bob]))) =
     [EvGaugeSet Balances (JString ''0xAA'') (JString ''alice'') (Finite 1000000000000000000),
      EvCounterInc ''balances'' ''getBalance'']"
proof -
  have r: "balance_responses (tick_events scenario_provider (fresh_world (JArray [alice, bob]))) =
     [Inr 1000000000000000000, Inl (RpcError ''timeout'')]"
    by (simp add: eval_defs example_defs balance_responses_def)
  show ?thesis
    using one_balance_outcome_per_account [of "fresh_world (JArray [alice, bob])" "[alice, bob]" scenario_provider]
    unfolding r
    by (simp add: fresh_world_def alice_def bob_def account_def nullish_def property_def
        balance_outcome_def parseInt10_toString to_Number_1e18)
qed

subsection \<open>The outcome of each nonce fetch\<close>

lemma call_responses_append:
  "call_responses (es @ es') = call_responses es @ call_responses es'"
  by (simp add: call_responses_def)

lemma call_responses_Nil: "call_responses [] = []"
  by (simp add: call_responses_def)

lemma balance_step_call_responses: "call_responses (fst (balance_step p a w)) = []"
  by (simp add: step_defs call_responses_def split: prod.splits sum.splits)

lemma balance_step_nonce_events: "filter is_nonce_event (fst (balance_step p a w)) = []"
  by (simp add: step_defs is_nonce_event_def split: prod.splits sum.splits)

lemma safe_nonce_fetch_call_responses:
  "call_responses (fst (safe_nonce_fetch p a w)) =
     [fst (call p (property a ''address'') ''0xaffed0e0'' (rpc w))]"
  by (simp add: step_defs call_responses_def split: prod.splits sum.splits)

lemma safe_nonce_fetch_nonce_events:
  "filter is_nonce_event (fst (safe_nonce_fetch p a w)) =
     nonce_fetch_events a (fst (call p (property a ''address'') ''0xaffed0e0'' (rpc w)))"
  by (simp add: step_defs is_nonce_event_def nonce_fetch_events_def nonce_outcome_def
      BigNumber_from_def parseInt10_toString split: prod.splits sum.splits)

lemma loop_nonce_events:
  "\<forall>a\<in>set xs. \<not> nullish a \<Longrightarrow>
   length (call_responses (fst (snd (main_loop p xs w)))) = length (filter is_safe xs) \<and>
   filter is_nonce_event (fst (snd (main_loop p xs w))) =
     concat (map2 nonce_fetch_events (filter is_safe xs)
               (call_responses (fst (snd (main_loop p xs w)))))"
  by (induction xs arbitrary: w)
     (simp_all add: main_loop_Cons Let_def call_responses_append call_responses_Nil
        balance_step_call_responses balance_step_nonce_events safe_nonce_fetch_call_responses
        safe_nonce_fetch_nonce_events)

text \<open>
  C3, amended. In a tick over an array of accounts (none of them \<open>null\<close>) there is one
  contract call per account whose \<open>safe\<close> is truthy, to the account's address with the
  data \<open>0xaffed0e0\<close>, and each call is followed by exactly one outcome: an increment of
  the error counter under (safeNonce, getSafeNonce) when the call failed or returned no
  byte, and otherwise a write to the nonce gauge, labelled with the account's address and
  nickname, of \<open>parseInt\<close> of the decimal string of the big-endian unsigned integer of
  the returned bytes. That value is the integer itself up to \<open>2 ^ 53\<close>; above, it is a
  number a double holds exactly, none nearer to the integer, and it can differ from it.
\<close>

theorem one_nonce_outcome_per_safe_account:
  assumes "accounts w = JArray xs" and "\<forall>a\<in>set xs. \<not> nullish a"
  shows "length (call_responses (tick_events p w)) = length (filter is_safe xs) \<and>
         filter is_nonce_event (tick_events p w) =
           concat (map2 nonce_fetch_events (filter is_safe xs) (call_responses (tick_events p w))) \<and>
         (\<forall>data. big_endian data \<le> 2 ^ 53 \<longrightarrow>
            to_Number (int (big_endian data)) = Finite (of_nat (big_endian data))) \<and>
         (\<forall>data. big_endian data < 2 ^ 1023 \<longrightarrow>
            to_Number (int (big_endian data)) =
              Finite (of_nat (round_binary64 (big_endian data))) \<and>
            is_binary64 (round_binary64 (big_endian data)) \<and>
            (\<forall>m. is_binary64 m \<longrightarrow>
               \<bar>int (round_binary64 (big_endian data)) - int (big_endian data)\<bar>
                 \<le> \<bar>int m - int (big_endian data)\<bar>))"
proof -
  have "to_Number (int (big_endian data)) = Finite (of_nat (round_binary64 (big_endian data)))"
    if "big_endian data < 2 ^ 1023" for data
    using that to_Number_nat [of "int (big_endian data)"] by simp
  then show ?thesis
    using assms
    by (simp add: main_array loop_nonce_events to_Number_exact round_binary64_is_binary64
        round_binary64_nearest)
qed


theorem one_nonce_outcome_per_safe_account_witness:
  "call_responses (tick_events scenario_provider (fresh_world (JArray [alice, bob]))) =
     [Inr [0x05]] \<and>
   filter is_nonce_event (tick_events scenario_provider (fresh_world (JArray [alice, bob]))) =
     [EvCall (JString ''0xBB'') ''0xaffed0e0'' (Inr [0x05]),
      EvGaugeSet SafeNonces (JString ''0xBB'') (JString ''bob'') (Finite 5)] \<and>
   to_Number (int (big_endian [0x05])) = Finite 5"
proof -
  have r: "call_responses (tick_events scenario_provider (fresh_world (JArray [alice, bob]))) =
     [Inr [0x05]]"
    by (simp add: eval_defs example_defs call_responses_def)
  have v: "big_endian [0x05] = 5"
    by (simp add: big_endian_def)
  show ?thesis
    using one_nonce_outcome_per_safe_account
      [of "fresh_world (JArray [alice, bob])" "[alice, bob]" scenario_provider]
    unfolding r
    by (simp add: fresh_world_def alice_def bob_def account_def nullish_def property_def
        is_safe_def nonce_fetch_events_def nonce_outcome_def v to_Number_exact)
qed

text \<open>
  C3 as stated fails where the integer is not one a double holds: the call for \<open>bob\<close>
  returns the seven bytes of \<open>2 ^ 53 + 1\<close>, and the gauge is set to \<open>2 ^ 53\<close>.
\<close>

theorem nonce_value_counterexample:
  "call_responses (tick_events
      (constant_provider (Inl (RpcError ''timeout'')) (Inr [0x20, 0, 0, 0, 0, 0, 1]))
      (fresh_world (JArray [bob]))) = [Inr [0x20, 0, 0, 0, 0, 0, 1]] \<and>
   big_endian [0x20, 0, 0, 0, 0, 0, 1] = 9007199254740993 \<and>
   safeNonces (tick_world
      (constant_provider (Inl (RpcError ''timeout'')) (Inr [0x20, 0, 0, 0, 0, 0, 1]))
      (fresh_world (JArray [bob]))) (JString ''0xBB'', JString ''bob'') =
     Some (Finite 9007199254740992) \<and>
   Finite 9007199254740992 \<noteq> Finite (of_nat (big_endian [0x20, 0, 0, 0, 0, 0, 1]))"
proof -
  have v: "big_endian [0x20, 0, 0, 0, 0, 0, 1] = 9007199254740993"
    by (simp add: big_endian_def)
  have n: "to_Number 9007199254740993 = Finite 9007199254740992"
    by (simp add: to_Number_def round_binary64_tie_down)
  have "safeNonces (tick_world
      (constant_provider (Inl (RpcError ''timeout'')) (Inr [0x20, 0, 0, 0, 0, 0, 1]))
      (fresh_world (JArray [bob]))) (JString ''0xBB'', JString ''bob'') =
     Some (to_Number (int (big_endian [0x20, 0, 0, 0, 0, 0, 1])))"
    by (simp add: eval_defs example_defs del: foldl.simps)
  moreover have "call_responses (tick_events
      (constant_provider (Inl (RpcError ''timeout'')) (Inr [0x20, 0, 0, 0, 0, 0, 1]))
      (fresh_world (JArray [bob]))) = [Inr [0x20, 0, 0, 0, 0, 0, 1]]"
    by (simp add: eval_defs example_defs call_responses_def)
  ultimately show ?thesis
    by (simp add: v n)
qed

subsection \<open>init\<close>

text \<open>
  C4, amended. \<open>init\<close> fails exactly when \<open>JSON.parse\<close> throws, that is when the text is
  no JSON at all. Whatever value the text denotes becomes \<open>state.accounts\<close> unchecked, and
  when it is an array without \<open>null\<close> in it, records with missing fields included, a tick
  on it runs to its end and asks for each element's balance.
\<close>

theorem init_fails_only_when_parse_throws:
  "(isl (init JSON_parse text w) \<longleftrightarrow> isl (JSON_parse text)) \<and>
   (\<forall>v. JSON_parse text = Inr v \<longrightarrow> init JSON_parse text w = Inr (w\<lparr>accounts := v\<rparr>)) \<and>
   (\<forall>xs. JSON_parse text = Inr (JArray xs) \<longrightarrow> (\<forall>a\<in>set xs. \<not> nullish a) \<longrightarrow>
      tick_thrown p (w\<lparr>accounts := JArray xs\<rparr>) = None \<and>
      requests (tick_events p (w\<lparr>accounts := JArray xs\<rparr>)) = concat (map requests_for xs))"
  by (auto simp: init_def main_array loop_thrown loop_requests split: sum.splits)

theorem init_fails_only_when_parse_throws_witness:
  "isl (init parse_sample ''['' (fresh_world JUndefined)) \<and>
   init parse_sample ''[{}]'' (fresh_world JUndefined) = Inr (fresh_world (JArray [JObject []])) \<and>
   tick_thrown scenario_provider (fresh_world (JArray [JObject []])) = None \<and>
   requests (tick_events scenario_provider (fresh_world (JArray [JObject []]))) =
     [ReqGetBalance JUndefined]"
  using init_fails_only_when_parse_throws
      [of parse_sample "''[''" "fresh_world JUndefined" scenario_provider]
    init_fails_only_when_parse_throws
      [of parse_sample "''[{}]''" "fresh_world JUndefined" scenario_provider]
  by (simp add: parse_sample_def fresh_world_def nullish_def requests_for_def is_safe_def
      property_def)

text \<open>
  C4 as stated fails on the text \<open>[{}]\<close>: its one record has none of the three fields,
  and \<open>init\<close> succeeds.
\<close>

theorem malformed_accounts_counterexample:
  "\<not> valid_accounts (JArray [JObject []]) \<and>
   parse_sample ''[{}]'' = Inr (JArray [JObject []]) \<and>
   init parse_sample ''[{}]'' (fresh_world JUndefined) = Inr (fresh_world (JArray [JObject []]))"
  by (simp add: valid_accounts_def valid_account_def parse_sample_def init_def fresh_world_def)


subsection \<open>Failed reads leave the gauges alone\<close>

lemma balance_step_failed:
  "\<not> nullish a \<Longrightarrow> isl (fst (getBalance p (property a ''address'') (rpc w))) \<Longrightarrow>
   filter is_gauge_write (fst (balance_step p a w)) = [] \<and>
   balances (snd (balance_step p a w)) = balances w \<and>
   safeNonces (snd (balance_step p a w)) = safeNonces w"
  by (auto simp: step_defs is_gauge_write_def split: prod.splits sum.splits)

lemma balance_step_safeNonces: "safeNonces (snd (balance_step p a w)) = safeNonces w"
  by (auto simp: step_defs split: prod.splits sum.splits)

lemma safe_nonce_fetch_balances: "balances (snd (safe_nonce_fetch p a w)) = balances w"
  by (auto simp: step_defs split: prod.splits sum.splits)

lemma safe_nonce_fetch_failed:
  "nonce_fetch_failed (fst (call p (property a ''address'') ''0xaffed0e0'' (rpc w))) \<Longrightarrow>
   filter is_gauge_write (fst (safe_nonce_fetch p a w)) = [] \<and>
   balances (snd (safe_nonce_fetch p a w)) = balances w \<and>
   safeNonces (snd (safe_nonce_fetch p a w)) = safeNonces w"
  by (auto simp: step_defs is_gauge_write_def nonce_fetch_failed_def
      split: prod.splits sum.splits)

lemma loop_balances_frame:
  "\<forall>a\<in>set xs. \<not> nullish a \<Longrightarrow>
   list_all isl (balance_responses (fst (snd (main_loop p xs w)))) \<Longrightarrow>
   balances (snd (snd (main_loop p xs w))) = balances w"
proof (induction xs arbitrary: w)
  case Nil
  then show ?case by simp
next
  case (Cons a xs)
  define w1 where "w1 = snd (balance_step p a w)"
  define w2 where "w2 = snd (if is_safe a then safe_nonce_fetch p a w1 else ([], w1))"
  from Cons.prems have a: "\<not> nullish a" and xs: "\<forall>a\<in>set xs. \<not> nullish a"
    by simp_all
  from Cons.prems(2) a
  have failed: "isl (fst (getBalance p (property a ''address'') (rpc w)))"
    and rest: "list_all isl (balance_responses (fst (snd (main_loop p xs w2))))"
    by (auto simp: main_loop_Cons Let_def balance_responses_append balance_step_responses
        safe_nonce_fetch_balance_responses balance_responses_Nil w1_def w2_def
        split: if_splits)
  have "balances (snd (snd (main_loop p (a # xs) w))) = balances (snd (snd (main_loop p xs w2)))"
    using a by (simp add: main_loop_Cons Let_def w1_def w2_def)
  also have "\<dots> = balances w2"
    using xs rest by (rule Cons.IH)
  also have "\<dots> = balances w1"
    by (simp add: w2_def safe_nonce_fetch_balances)
  also have "\<dots> = balances w"
    using balance_step_failed [OF a failed] by (simp add: w1_def)
  finally show ?case .
qed


lemma loop_safeNonces_frame:
  "\<forall>a\<in>set xs. \<not> nullish a \<Longrightarrow>
   list_all nonce_fetch_failed (call_responses (fst (snd (main_loop p xs w)))) \<Longrightarrow>
   safeNonces (snd (snd (main_loop p xs w))) = safeNonces w"
proof (induction xs arbitrary: w)
  case Nil
  then show ?case by simp
next
  case (Cons a xs)
  define w1 where "w1 = snd (balance_step p a w)"
  define w2 where "w2 = snd (if is_safe a then safe_nonce_fetch p a w1 else ([], w1))"
  from Cons.prems have a: "\<not> nullish a" and xs: "\<forall>a\<in>set xs. \<not> nullish a"
    by simp_all
  from Cons.prems(2) a
  have failed: "is_safe a \<longrightarrow>
      nonce_fetch_failed (fst (call p (property a ''address'') ''0xaffed0e0'' (rpc w1)))"
    and rest: "list_all nonce_fetch_failed (call_responses (fst (snd (main_loop p xs w2))))"
    by (auto simp: main_loop_Cons Let_def call_responses_append balance_step_call_responses
        safe_nonce_fetch_call_responses call_responses_Nil w1_def w2_def
        split: if_splits)
  have "safeNonces (snd (snd (main_loop p (a # xs) w))) =
        safeNonces (snd (snd (main_loop p xs w2)))"
    using a by (simp add: main_loop_Cons Let_def w1_def w2_def)
  also have "\<dots> = safeNonces w2"
    using xs rest by (rule Cons.IH)
  also have "\<dots> = safeNonces w1"
    using failed safe_nonce_fetch_failed [of p a w1] by (simp add: w2_def)
  also have "\<dots> = safeNonces w"
    by (simp add: w1_def balance_step_safeNonces)
  finally show ?case .
qed

text \<open>
  C5. A balance read that fails writes to no gauge and leaves both gauges as they were,
  and so does a nonce fetch that fails, at every account and from every state a tick can
  be in. Over a whole tick: when every balance read of the tick failed, the balance gauge
  is what it was before the tick, and when every nonce fetch failed, so is the nonce
  gauge.
\<close>

theorem failed_reads_keep_the_gauges:
  "(\<not> nullish a \<longrightarrow> isl (fst (getBalance p (property a ''address'') (rpc w))) \<longrightarrow>
      filter is_gauge_write (fst (balance_step p a w)) = [] \<and>
      balances (snd (balance_step p a w)) = balances w \<and>
      safeNonces (snd (balance_step p a w)) = safeNonces w) \<and>
   (nonce_fetch_failed (fst (call p (property a ''address'') ''0xaffed0e0'' (rpc w))) \<longrightarrow>
      filter is_gauge_write (fst (safe_nonce_fetch p a w)) = [] \<and>
      balances (snd (safe_nonce_fetch p a w)) = balances w \<and>
      safeNonces (snd (safe_nonce_fetch p a w)) = safeNonces w) \<and>
   (accounts w = JArray xs \<longrightarrow> (\<forall>x\<in>set xs. \<not> nullish x) \<longrightarrow>
      (list_all isl (balance_responses (tick_events p w)) \<longrightarrow>
         balances (tick_world p w) = balances w) \<and>
      (list_all nonce_fetch_failed (call_responses (tick_events p w)) \<longrightarrow>
         safeNonces (tick_world p w) = safeNonces w))"
  using balance_step_failed [of a p w] safe_nonce_fetch_failed [of p a w]
    loop_balances_frame [of xs p w] loop_safeNonces_frame [of xs p w]
  by (simp add: main_array)


theorem failed_reads_keep_the_gauges_witness:
  "filter is_gauge_write (fst (balance_step failing_provider bob seeded_world)) = [] \<and>
   balances (snd (balance_step failing_provider bob seeded_world))
     (JString ''0xBB'', JString ''bob'') = Some (Finite 42) \<and>
   filter is_gauge_write (fst (safe_nonce_fetch failing_provider bob seeded_world)) = [] \<and>
   safeNonces (snd (safe_nonce_fetch failing_provider bob seeded_world))
     (JString ''0xBB'', JString ''bob'') = Some (Finite 7) \<and>
   balances (tick_world failing_provider seeded_world)
     (JString ''0xBB'', JString ''bob'') = Some (Finite 42) \<and>
   safeNonces (tick_world failing_provider seeded_world)
     (JString ''0xBB'', JString ''bob'') = Some (Finite 7)"
proof -
  have b: "balance_responses (tick_events failing_provider seeded_world) =
      [Inl (RpcError ''timeout'')]"
    by (simp add: eval_defs example_defs failing_provider_def seeded_world_def
        balance_responses_def)
  have c: "call_responses (tick_events failing_provider seeded_world) = [Inr []]"
    by (simp add: eval_defs example_defs failing_provider_def seeded_world_def
        call_responses_def)
  show ?thesis
    using failed_reads_keep_the_gauges [of bob failing_provider seeded_world "[bob]"]
    unfolding b c
    by (simp add: failing_provider_def constant_provider_def seeded_world_def fresh_world_def
        bob_def account_def nullish_def nonce_fetch_failed_def BigNumber_from_def)
qed

subsection \<open>Accounts that are not safe\<close>

lemma balance_catch_no_call: "EvCall A d res \<notin> set (fst (balance_catch err w))"
  by (simp add: step_defs)

lemma balance_step_no_call: "EvCall A d res \<notin> set (fst (balance_step p a w))"
  by (auto simp: step_defs split: prod.splits sum.splits)

lemma balance_step_no_nonce_write:
  "EvGaugeSet SafeNonces A N v \<notin> set (fst (balance_step p a w))"
  by (auto simp: step_defs split: prod.splits sum.splits)

lemma safe_nonce_fetch_call:
  "EvCall A d res \<in> set (fst (safe_nonce_fetch p a w)) \<Longrightarrow> A = property a ''address''"
  by (auto simp: step_defs split: prod.splits sum.splits)

lemma safe_nonce_fetch_write:
  "EvGaugeSet SafeNonces A N v \<in> set (fst (safe_nonce_fetch p a w)) \<Longrightarrow>
   A = property a ''address'' \<and> N = property a ''nickname''"
  by (auto simp: step_defs split: prod.splits sum.splits)

lemma safe_nonce_fetch_other_labels:
  "(property a ''address'', property a ''nickname'') \<noteq> L \<Longrightarrow>
   safeNonces (snd (safe_nonce_fetch p a w)) L = safeNonces w L"
  by (auto simp: step_defs split: prod.splits sum.splits)

lemma loop_calls_safe:
  "EvCall A d res \<in> set (fst (snd (main_loop p xs w))) \<Longrightarrow>
   \<exists>a\<in>set xs. is_safe a \<and> property a ''address'' = A"
proof (induction xs arbitrary: w)
  case Nil
  then show ?case by simp
next
  case (Cons a xs)
  show ?case
  proof (cases "nullish a")
    case True
    with Cons.prems show ?thesis
      by (simp add: main_loop_Cons_nullish balance_catch_no_call)
  next
    case False
    with Cons.prems Cons.IH show ?thesis
      by (auto simp: main_loop_Cons Let_def balance_step_no_call
          dest: safe_nonce_fetch_call split: if_splits)
  qed
qed

lemma loop_nonce_writes_safe:
  "EvGaugeSet SafeNonces A N v \<in> set (fst (snd (main_loop p xs w))) \<Longrightarrow>
   \<exists>a\<in>set xs. is_safe a \<and> property a ''address'' = A \<and> property a ''nickname'' = N"
proof (induction xs arbitrary: w)
  case Nil
  then show ?case by simp
next
  case (Cons a xs)
  show ?case
  proof (cases "nullish a")
    case True
    with Cons.prems show ?thesis
      by (simp add: main_loop_Cons_nullish step_defs)
  next
    case False
    with Cons.prems Cons.IH show ?thesis
      by (auto simp: main_loop_Cons Let_def balance_step_no_nonce_write
          dest: safe_nonce_fetch_write split: if_splits)
  qed
qed

lemma loop_safeNonces_other_labels:
  "\<forall>a\<in>set xs. is_safe a \<longrightarrow> (property a ''address'', property a ''nickname'') \<noteq> L \<Longrightarrow>
   safeNonces (snd (snd (main_loop p xs w))) L = safeNonces w L"
proof (induction xs arbitrary: w)
  case Nil
  then show ?case by simp
next
  case (Cons a xs)
  show ?case
  proof (cases "nullish a")
    case True
    then show ?thesis
      by (simp add: main_loop_Cons_nullish step_defs)
  next
    case False
    with Cons.prems Cons.IH show ?thesis
      by (simp add: main_loop_Cons Let_def balance_step_safeNonces
          safe_nonce_fetch_other_labels)
  qed
qed

text \<open>
  C6. For an account whose \<open>safe\<close> is falsy the nonce step does nothing at all: no call,
  no write, the world as it was. Over a tick on an array of accounts: an address whose
  accounts all have a falsy \<open>safe\<close> receives no contract call, and a pair of labels
  (address, nickname) whose accounts all have a falsy \<open>safe\<close> gets no write to the nonce
  gauge, which holds for it after the tick what it held before.
\<close>

theorem unsafe_accounts_get_no_nonce_fetch:
  assumes "accounts w = JArray xs"
  shows "(\<forall>a v. \<not> nullish a \<and> \<not> is_safe a \<longrightarrow> nonce_step p a v = Inr ([], v)) \<and>
         ((\<forall>a\<in>set xs. property a ''address'' = A \<longrightarrow> \<not> is_safe a) \<longrightarrow>
            (\<forall>d res. EvCall A d res \<notin> set (tick_events p w))) \<and>
         ((\<forall>a\<in>set xs. property a ''address'' = A \<and> property a ''nickname'' = N \<longrightarrow>
              \<not> is_safe a) \<longrightarrow>
            (\<forall>v. EvGaugeSet SafeNonces A N v \<notin> set (tick_events p w)) \<and>
            safeNonces (tick_world p w) (A, N) = safeNonces w (A, N))"
proof (intro conjI impI allI)
  fix a v
  assume "\<not> nullish a \<and> \<not> is_safe a"
  then show "nonce_step p a v = Inr ([], v)"
    by (simp add: nonce_step_Inr)
next
  fix d res
  assume "\<forall>a\<in>set xs. property a ''address'' = A \<longrightarrow> \<not> is_safe a"
  then show "EvCall A d res \<notin> set (tick_events p w)"
    using loop_calls_safe [of A d res p xs w] assms by (auto simp: main_array)
next
  fix v
  assume "\<forall>a\<in>set xs. property a ''address'' = A \<and> property a ''nickname'' = N \<longrightarrow> \<not> is_safe a"
  then show "EvGaugeSet SafeNonces A N v \<notin> set (tick_events p w)"
    using loop_nonce_writes_safe [of A N v p xs w] assms by (auto simp: main_array)
next
  assume "\<forall>a\<in>set xs. property a ''address'' = A \<and> property a ''nickname'' = N \<longrightarrow> \<not> is_safe a"
  then have "\<forall>a\<in>set xs. is_safe a \<longrightarrow> (property a ''address'', property a ''nickname'') \<noteq> (A, N)"
    by auto
  then show "safeNonces (tick_world p w) (A, N) = safeNonces w (A, N)"
    using assms by (simp add: main_array loop_safeNonces_other_labels)
qed


theorem unsafe_accounts_get_no_nonce_fetch_witness:
  "nonce_step scenario_provider alice (fresh_world (JArray [alice, bob])) =
     Inr ([], fresh_world (JArray [alice, bob])) \<and>
   (\<forall>d res. EvCall (JString ''0xAA'') d res \<notin>
      set (tick_events scenario_provider (fresh_world (JArray [alice, bob])))) \<and>
   (\<forall>v. EvGaugeSet SafeNonces (JString ''0xAA'') (JString ''alice'') v \<notin>
      set (tick_events scenario_provider (fresh_world (JArray [alice, bob])))) \<and>
   safeNonces (tick_world scenario_provider (fresh_world (JArray [alice, bob])))
     (JString ''0xAA'', JString ''alice'') = None"
  using unsafe_accounts_get_no_nonce_fetch
      [where w = "fresh_world (JArray [alice, bob])" and xs = "[alice, bob]"
         and A = "JString ''0xAA''" and p = scenario_provider and N = "JString ''alice''"]
  by (simp add: fresh_world_def alice_def bob_def account_def is_safe_def property_def
      nullish_def)

subsection \<open>The value written to a gauge\<close>

lemma balance_step_success:
  assumes "\<not> nullish a" and "fst (getBalance p (property a ''address'') (rpc w)) = Inr b"
  shows "filter is_gauge_write (fst (balance_step p a w)) =
           [EvGaugeSet Balances (property a ''address'') (property a ''nickname'') (to_Number b)]"
    and "balances (snd (balance_step p a w)) (property a ''address'', property a ''nickname'') =
           Some (to_Number b)"
  using assms
  by (auto simp: step_defs is_gauge_write_def parseInt10_toString split: prod.splits sum.splits)

text \<open>
  C7, amended. A balance read that succeeds is followed by one gauge write, to the
  balance gauge under the account's address and nickname, of \<open>parseInt\<close> of the balance's
  decimal string. The value is the balance itself up to \<open>2 ^ 53\<close>. For a balance below
  \<open>2 ^ 1023\<close> it is a number a double holds exactly, no such number is nearer to the
  balance, where two are equally near it is the one with the even significand, and it
  differs from the balance by at most the balance over \<open>2 ^ 53\<close>: it may lie above the
  balance as well as below it. For a read of \<open>1000000000000000000\<close> it is
  \<open>1000000000000000000\<close>.
\<close>

theorem balance_is_rounded_to_the_nearest_Number:
  assumes "\<not> nullish a" and "fst (getBalance p (property a ''address'') (rpc w)) = Inr b"
  shows "filter is_gauge_write (fst (balance_step p a w)) =
           [EvGaugeSet Balances (property a ''address'') (property a ''nickname'') (to_Number b)] \<and>
         balances (snd (balance_step p a w)) (property a ''address'', property a ''nickname'') =
           Some (to_Number b) \<and>
         (\<bar>b\<bar> \<le> 2 ^ 53 \<longrightarrow> to_Number b = Finite (of_int b)) \<and>
         (0 \<le> b \<and> b < 2 ^ 1023 \<longrightarrow>
            to_Number b = Finite (of_nat (round_binary64 (nat b))) \<and>
            is_binary64 (round_binary64 (nat b)) \<and>
            (\<forall>m. is_binary64 m \<longrightarrow> \<bar>int (round_binary64 (nat b)) - b\<bar> \<le> \<bar>int m - b\<bar>) \<and>
            (\<forall>m. is_binary64 m \<and> m \<noteq> round_binary64 (nat b) \<and>
                 \<bar>int m - b\<bar> = \<bar>int (round_binary64 (nat b)) - b\<bar> \<longrightarrow>
                 even (round_binary64 (nat b) div 2 ^ (bit_width (nat b) - 53))) \<and>
            2 ^ 53 * \<bar>int (round_binary64 (nat b)) - b\<bar> \<le> b) \<and>
         (b = 1000000000000000000 \<longrightarrow> to_Number b = Finite 1000000000000000000)"
proof -
  have "is_binary64 (round_binary64 (nat b))"
    by (rule round_binary64_is_binary64)
  moreover have "\<forall>m. is_binary64 m \<longrightarrow> \<bar>int (round_binary64 (nat b)) - b\<bar> \<le> \<bar>int m - b\<bar>"
    if "0 \<le> b"
    using that round_binary64_nearest [of _ "nat b"] by simp
  moreover have "\<forall>m. is_binary64 m \<and> m \<noteq> round_binary64 (nat b) \<and>
      \<bar>int m - b\<bar> = \<bar>int (round_binary64 (nat b)) - b\<bar> \<longrightarrow>
      even (round_binary64 (nat b) div 2 ^ (bit_width (nat b) - 53))"
    if "0 \<le> b"
    using that round_binary64_ties_to_even [of _ "nat b"] by auto
  ultimately show ?thesis
    using balance_step_success [OF assms] to_Number_exact [of b] to_Number_nat [of b]
      to_Number_near [of b] to_Number_1e18
    by blast
qed

theorem balance_is_rounded_to_the_nearest_Number_witness:
  "filter is_gauge_write (fst (balance_step scenario_provider alice (fresh_world (JArray [alice])))) =
     [EvGaugeSet Balances (JString ''0xAA'') (JString ''alice'') (Finite 1000000000000000000)] \<and>
   balances (snd (balance_step scenario_provider alice (fresh_world (JArray [alice]))))
     (JString ''0xAA'', JString ''alice'') = Some (Finite 1000000000000000000) \<and>
   balances (snd (balance_step (constant_provider (Inr 42) (Inr [])) alice
       (fresh_world (JArray [alice])))) (JString ''0xAA'', JString ''alice'') = Some (Finite 42)"
proof -
  have h3: "fst (getBalance (constant_provider (Inr 42) (Inr [])) (property alice ''address'')
      (rpc (fresh_world (JArray [alice])))) = Inr 42"
    by (simp add: constant_provider_def)
  have a: "property alice ''address'' = JString ''0xAA''"
    and n: "property alice ''nickname'' = JString ''alice''"
    by (simp_all add: alice_def account_def property_def)
  have h1: "\<not> nullish alice"
    by (simp add: alice_def account_def nullish_def)
  have h2: "fst (getBalance scenario_provider (property alice ''address'')
      (rpc (fresh_world (JArray [alice])))) = Inr 1000000000000000000"
    by (simp add: a scenario_provider_def)
  show ?thesis
    using balance_is_rounded_to_the_nearest_Number [OF h1 h2]
      balance_is_rounded_to_the_nearest_Number [OF h1 h3]
    by (simp add: a n to_Number_1e18)
qed

text \<open>
  C7 as stated fails where the nearest Number lies above the balance: a read of
  \<open>2 ^ 53 + 3\<close> sets the gauge to \<open>2 ^ 53 + 4\<close>, which no truncation gives.
\<close>

theorem balance_truncation_counterexample:
  "balance_responses (tick_events
      (constant_provider (Inr 9007199254740995) (Inl (RpcError ''timeout'')))
      (fresh_world (JArray [alice]))) = [Inr 9007199254740995] \<and>
   balances (tick_world
      (constant_provider (Inr 9007199254740995) (Inl (RpcError ''timeout'')))
      (fresh_world (JArray [alice]))) (JString ''0xAA'', JString ''alice'') =
     Some (Finite 9007199254740996) \<and>
   (9007199254740995 :: rat) < 9007199254740996"
proof -
  have n: "to_Number 9007199254740995 = Finite 9007199254740996"
    by (simp add: to_Number_def round_binary64_tie_up)
  show ?thesis
    by (simp add: eval_defs example_defs balance_responses_def n)
qed

subsection \<open>The second scenario of the specification\<close>

text \<open>
  C8. The accounts are the one record \<open>{address: "0xBB", nickname: "bob", safe: true}\<close>,
  the balance read throws and the nonce call returns bytes that read 5 (the byte \<open>0x05\<close>,
  or 5 padded with zero bytes on the left): the tick throws nothing, the error counter
  under (balances, getBalance) goes up by one and no other count changes, the nonce gauge
  holds 5 under (0xBB, bob) and is otherwise as before, and the balance gauge is as
  before.
\<close>

theorem bob_scenario:
  assumes "accounts w = JArray [account ''0xBB'' ''bob'' True]"
    and "getBalance p (JString ''0xBB'') (rpc w) = (Inl err, r1)"
    and "call p (JString ''0xBB'') ''0xaffed0e0'' r1 = (Inr data, r2)"
    and "data \<noteq> []" and "big_endian data = 5"
  shows "tick_thrown p w = None \<and>
         unexpectedRpcErrors (tick_world p w) =
           (unexpectedRpcErrors w)
             ((''balances'', ''getBalance'') :=
                unexpectedRpcErrors w (''balances'', ''getBalance'') + 1) \<and>
         safeNonces (tick_world p w) =
           (safeNonces w)((JString ''0xBB'', JString ''bob'') \<mapsto> Finite 5) \<and>
         balances (tick_world p w) = balances w"
  using assms
  by (simp add: main_def iterate_def main_loop.simps nonce_step_def step_defs nullish_def
      property_def account_def parseInt10_toString BigNumber_from_def to_Number_exact)

theorem bob_scenario_witness:
  "tick_thrown scenario_provider (fresh_world (JArray [bob])) = None \<and>
   unexpectedRpcErrors (tick_world scenario_provider (fresh_world (JArray [bob])))
     (''balances'', ''getBalance'') = 1 \<and>
   safeNonces (tick_world scenario_provider (fresh_world (JArray [bob])))
     (JString ''0xBB'', JString ''bob'') = Some (Finite 5)"
  using bob_scenario
      [of "fresh_world (JArray [bob])" scenario_provider "RpcError ''timeout''" "()" "[0x05]" "()"]
  by (simp add: fresh_world_def bob_def scenario_provider_def big_endian_def)


subsection \<open>The accounts across ticks\<close>

lemma balance_step_accounts: "accounts (snd (balance_step p a w)) = accounts w"
  by (auto simp: step_defs split: prod.splits sum.splits)

lemma safe_nonce_fetch_accounts: "accounts (snd (safe_nonce_fetch p a w)) = accounts w"
  by (auto simp: step_defs split: prod.splits sum.splits)

lemma loop_accounts: "accounts (snd (snd (main_loop p xs w))) = accounts w"
proof (induction xs arbitrary: w)
  case Nil
  then show ?case by simp
next
  case (Cons a xs)
  show ?case
  proof (cases "nullish a")
    case True
    then show ?thesis
      by (simp add: main_loop_Cons_nullish step_defs)
  next
    case False
    with Cons.IH show ?thesis
      by (simp add: main_loop_Cons Let_def balance_step_accounts safe_nonce_fetch_accounts)
  qed
qed

lemma main_accounts: "accounts (snd (snd (main p w))) = accounts w"
  by (cases "iterate (accounts w)") (simp_all add: main_def loop_accounts)

lemma balance_targets_append:
  "balance_targets (es @ es') = balance_targets es @ balance_targets es'"
  by (simp add: balance_targets_def)

lemma balance_targets_Nil: "balance_targets [] = []"
  by (simp add: balance_targets_def)

lemma balance_step_targets:
  "\<not> nullish a \<Longrightarrow> balance_targets (fst (balance_step p a w)) = [property a ''address'']"
  by (simp add: step_defs balance_targets_def split: prod.splits sum.splits)

lemma safe_nonce_fetch_balance_targets: "balance_targets (fst (safe_nonce_fetch p a w)) = []"
  by (simp add: step_defs balance_targets_def split: prod.splits sum.splits)

lemma loop_balance_targets:
  "\<forall>a\<in>set xs. \<not> nullish a \<Longrightarrow>
   balance_targets (fst (snd (main_loop p xs w))) = map (\<lambda>a. property a ''address'') xs"
  by (induction xs arbitrary: w)
     (simp_all add: main_loop_Cons Let_def balance_targets_append balance_targets_Nil
        balance_step_targets safe_nonce_fetch_balance_targets)

text \<open>
  C9. A tick leaves \<open>state.accounts\<close> as it found it, whatever it holds and whatever the
  provider does. When it holds an array of accounts (none of them \<open>null\<close>), a tick reads
  the balances at the accounts' addresses in the order of the array, and so does the tick
  after it.
\<close>

theorem accounts_are_not_mutated:
  "accounts (tick_world p w) = accounts w \<and>
   (accounts w = JArray xs \<longrightarrow> (\<forall>a\<in>set xs. \<not> nullish a) \<longrightarrow>
      balance_targets (tick_events p w) = map (\<lambda>a. property a ''address'') xs \<and>
      balance_targets (tick_events p (tick_world p w)) = map (\<lambda>a. property a ''address'') xs)"
proof (intro conjI impI)
  show "accounts (tick_world p w) = accounts w"
    by (rule main_accounts)
next
  assume a: "accounts w = JArray xs" and n: "\<forall>a\<in>set xs. \<not> nullish a"
  from a n show "balance_targets (tick_events p w) = map (\<lambda>a. property a ''address'') xs"
    by (simp add: main_array loop_balance_targets)
  have "accounts (tick_world p w) = JArray xs"
    using a by (simp add: main_accounts)
  with n show "balance_targets (tick_events p (tick_world p w)) =
      map (\<lambda>a. property a ''address'') xs"
    by (simp add: main_array [of "tick_world p w" xs] loop_balance_targets)
qed

theorem accounts_are_not_mutated_witness:
  "accounts (tick_world scenario_provider (fresh_world (JArray [alice, bob]))) =
     JArray [alice, bob] \<and>
   balance_targets (tick_events scenario_provider (fresh_world (JArray [alice, bob]))) =
     [JString ''0xAA'', JString ''0xBB''] \<and>
   balance_targets (tick_events scenario_provider
       (tick_world scenario_provider (fresh_world (JArray [alice, bob])))) =
     [JString ''0xAA'', JString ''0xBB'']"
proof -
  have h1: "accounts (fresh_world (JArray [alice, bob])) = JArray [alice, bob]"
    by (simp add: fresh_world_def)
  have h2: "\<forall>a\<in>set [alice, bob]. \<not> nullish a"
    by (simp add: alice_def bob_def account_def nullish_def)
  have a: "map (\<lambda>a. property a ''address'') [alice, bob] = [JString ''0xAA'', JString ''0xBB'']"
    by (simp add: alice_def bob_def account_def property_def)
  show ?thesis
    using accounts_are_not_mutated
      [of scenario_provider "fresh_world (JArray [alice, bob])" "[alice, bob]"] h1 h2
    unfolding a by simp
qed

subsection \<open>The test on \<open>safe\<close>\<close>

lemma call_targets_append: "call_targets (es @ es') = call_targets es @ call_targets es'"
  by (simp add: call_targets_def)

lemma call_targets_Nil: "call_targets [] = []"
  by (simp add: call_targets_def)

lemma balance_step_call_targets: "call_targets (fst (balance_step p a w)) = []"
  by (simp add: step_defs call_targets_def split: prod.splits sum.splits)

lemma safe_nonce_fetch_call_targets:
  "call_targets (fst (safe_nonce_fetch p a w)) = [property a ''address'']"
  by (simp add: step_defs call_targets_def split: prod.splits sum.splits)

lemma loop_call_targets:
  "\<forall>a\<in>set xs. \<not> nullish a \<Longrightarrow>
   call_targets (fst (snd (main_loop p xs w))) =
     map (\<lambda>a. property a ''address'') (filter (\<lambda>a. ToBoolean (property a ''safe'')) xs)"
  by (induction xs arbitrary: w)
     (simp_all add: main_loop_Cons Let_def call_targets_append call_targets_Nil
        balance_step_call_targets safe_nonce_fetch_call_targets is_safe_def)

text \<open>
  C10. In a tick over an array of accounts (none of them \<open>null\<close>) the contract calls go,
  in order, to the addresses of exactly the accounts whose \<open>safe\<close> is truthy. The string
  \<open>"false"\<close> and the number 1 are truthy; \<open>false\<close>, 0, \<open>null\<close> and \<open>undefined\<close> are not, and
  a record without the field has \<open>undefined\<close> for it.
\<close>

theorem nonce_fetch_follows_truthiness:
  assumes "accounts w = JArray xs" and "\<forall>a\<in>set xs. \<not> nullish a"
  shows "call_targets (tick_events p w) =
           map (\<lambda>a. property a ''address'') (filter (\<lambda>a. ToBoolean (property a ''safe'')) xs) \<and>
         ToBoolean (JString ''false'') \<and> ToBoolean (JNumber (Finite 1)) \<and>
         \<not> ToBoolean (JBoolean False) \<and> \<not> ToBoolean (JNumber (Finite 0)) \<and>
         \<not> ToBoolean JNull \<and> \<not> ToBoolean JUndefined \<and>
         property (JObject [(''address'', A), (''nickname'', N)]) ''safe'' = JUndefined"
  using assms by (simp add: main_array loop_call_targets property_def)

theorem nonce_fetch_follows_truthiness_witness:
  "call_targets (tick_events scenario_provider (fresh_world (JArray loosely_typed_accounts))) =
     [JString ''0x01'', JString ''0x02'']"
  using nonce_fetch_follows_truthiness
      [of "fresh_world (JArray loosely_typed_accounts)" loosely_typed_accounts scenario_provider]
  by (simp add: fresh_world_def loosely_typed_accounts_def nullish_def property_def)

end
